theory Spec2Isabelle
  imports
    Main
    "HOL-Library.Char_ord"
    "HOL-Library.List_Lexorder"
    "HOL-Library.AList"
    "HOL-Library.Sublist"
begin

section \<open>The checkpointed mismatch scan of document_items_repo_itemyear_mismatch.ts\<close>

text \<open>
  The script streams the collection DocumentItems in ascending order of \<open>_id\<close>, groups the
  rows into batches by the number of distinct item ids, resolves every batch against
  ItemYearDimensionValues, counts the rows whose repository body of knowledge is not among
  the item's bodies, keeps the first twenty of them as samples, and saves its counters to a
  checkpoint file from which a later run resumes.

  Strings are byte lists: the UTF-8 encoding of the JavaScript strings, ordered
  lexicographically by byte as MongoDB orders string keys. The Chinese literals of the
  source are written out as their UTF-8 bytes.
\<close>

subsection \<open>Constants (lines 11-15) and string literals\<close>

definition OUTPUT_FILE_NAME :: string where
  "OUTPUT_FILE_NAME = ''document_items_repo_itemyear_mismatch.md''"

definition CHECKPOINT_FILE_NAME :: string where
  "CHECKPOINT_FILE_NAME = ''document_items_repo_itemyear_mismatch_checkpoint.json''"

definition SAMPLE_LIMIT :: nat where
  "SAMPLE_LIMIT = 20"

definition BATCH_SIZE :: nat where
  "BATCH_SIZE = 5000"

definition CHECKPOINT_SAVE_INTERVAL :: nat where
  "CHECKPOINT_SAVE_INTERVAL = 5"

definition UNKNOWN :: string where  (* UTF-8 bytes of the literal at lines 283-284, 160, 177, 207 *)
  "UNKNOWN =
     [CHR 0xE6, CHR 0x9C, CHR 0xAA, CHR 0xE7, CHR 0x9F, CHR 0xA5]"

definition MISMATCH_REASON :: string where  (* UTF-8 bytes of the literal at line 232 *)
  "MISMATCH_REASON =
     [CHR 0xE5, CHR 0x84, CHR 0xB2, CHR 0xE5, CHR 0xAD, CHR 0x98, CHR 0xE5, CHR 0xBA,
     CHR 0xAB, CHR 0xE5, CHR 0xAD, CHR 0xB8, CHR 0xE7, CHR 0xA8, CHR 0x8B, CHR 0xE8,
     CHR 0x88, CHR 0x87, CHR 0xE9, CHR 0xA1, CHR 0x8C, CHR 0xE7, CHR 0x9B, CHR 0xAE,
     CHR 0xE5, CHR 0xAD, CHR 0xB8, CHR 0xE7, CHR 0xA8, CHR 0x8B, CHR 0xE4, CHR 0xB8,
     CHR 0x8D, CHR 0xE4, CHR 0xB8, CHR 0x80, CHR 0xE8, CHR 0x87, CHR 0xB4]"

definition MSG_NO_CHECKPOINT :: string where  (* UTF-8 bytes of the literal at line 82 *)
  "MSG_NO_CHECKPOINT =
     [CHR 0xE6, CHR 0x89, CHR 0xBE, CHR 0xE4, CHR 0xB8, CHR 0x8D, CHR 0xE5, CHR 0x88,
     CHR 0xB0, CHR 0xE7, CHR 0xBA, CHR 0x8C, CHR 0xE8, CHR 0xB7, CHR 0x91, CHR 0xE6,
     CHR 0xAA, CHR 0x94, CHR 0xE6, CHR 0xA1, CHR 0x88, CHR 0xEF, CHR 0xBC, CHR 0x8C,
     CHR 0xE7, CHR 0x84, CHR 0xA1, CHR 0xE6, CHR 0xB3, CHR 0x95, CHR 0xE8, CHR 0xBC,
     CHR 0xB8, CHR 0xE5, CHR 0x87, CHR 0xBA, CHR 0xE6, CHR 0x9A, CHR 0xAB, CHR 0xE5,
     CHR 0xAD, CHR 0x98, CHR 0xE7, CHR 0xB5, CHR 0x90, CHR 0xE6, CHR 0x9E, CHR 0x9C]"

definition HDR_TITLE :: string where  (* UTF-8 bytes of the literal at lines 105, 341 *)
  "HDR_TITLE =
     ''# '' @ [CHR 0xE9, CHR 0xA1, CHR 0x8C, CHR 0xE7, CHR 0x9B, CHR 0xAE, CHR 0xE9,
     CHR 0x97, CHR 0x9C, CHR 0xE8, CHR 0x81, CHR 0xAF, CHR 0xE5, CHR 0x84, CHR 0xB2,
     CHR 0xE5, CHR 0xAD, CHR 0x98, CHR 0xE5, CHR 0xBA, CHR 0xAB, CHR 0xE8, CHR 0x88,
     CHR 0x87, CHR 0xE9, CHR 0xA1, CHR 0x8C, CHR 0xE7, CHR 0x9B, CHR 0xAE, CHR 0xE5,
     CHR 0xAD, CHR 0xB8, CHR 0xE7, CHR 0xA8, CHR 0x8B, CHR 0xE4, CHR 0xB8, CHR 0x8D,
     CHR 0xE4, CHR 0xB8, CHR 0x80, CHR 0xE8, CHR 0x87, CHR 0xB4, CHR 0xE7, CHR 0xB5,
     CHR 0xB1, CHR 0xE8, CHR 0xA8, CHR 0x88]"

definition HDR_QUERY_TIME :: string where  (* UTF-8 bytes of the literal at lines 107, 343 *)
  "HDR_QUERY_TIME =
     ''**'' @ [CHR 0xE6, CHR 0x9F, CHR 0xA5, CHR 0xE8, CHR 0xA9, CHR 0xA2, CHR 0xE6,
     CHR 0x99, CHR 0x82, CHR 0xE9, CHR 0x96, CHR 0x93] @ ''**: ''"

definition HDR_ROW_COUNT :: string where  (* UTF-8 bytes of the literal at lines 108, 344 *)
  "HDR_ROW_COUNT =
     ''**'' @ [CHR 0xE4, CHR 0xB8, CHR 0x8D, CHR 0xE4, CHR 0xB8, CHR 0x80, CHR 0xE8,
     CHR 0x87, CHR 0xB4, CHR 0xE6, CHR 0x96, CHR 0x87, CHR 0xE4, CHR 0xBB, CHR 0xB6,
     CHR 0xE9, CHR 0xA1, CHR 0x8C, CHR 0xE7, CHR 0x9B, CHR 0xAE, CHR 0xE7, CHR 0xAD,
     CHR 0x86, CHR 0xE6, CHR 0x95, CHR 0xB8] @ ''**: ''"

definition HDR_ITEM_COUNT :: string where  (* UTF-8 bytes of the literal at lines 109, 345 *)
  "HDR_ITEM_COUNT =
     ''**'' @ [CHR 0xE6, CHR 0xB6, CHR 0x89, CHR 0xE5, CHR 0x8F, CHR 0x8A, CHR 0xE9,
     CHR 0xA1, CHR 0x8C, CHR 0xE7, CHR 0x9B, CHR 0xAE, CHR 0xE6, CHR 0x95, CHR 0xB8] @
     ''**: ''"

definition HDR_REASONS :: string where  (* UTF-8 bytes of the literal at lines 112, 348 *)
  "HDR_REASONS =
     ''## '' @ [CHR 0xE4, CHR 0xB8, CHR 0x8D, CHR 0xE4, CHR 0xB8, CHR 0x80, CHR 0xE8,
     CHR 0x87, CHR 0xB4, CHR 0xE9, CHR 0xA1, CHR 0x9E, CHR 0xE5, CHR 0x9E, CHR 0x8B,
     CHR 0xE7, CHR 0xB5, CHR 0xB1, CHR 0xE8, CHR 0xA8, CHR 0x88]"

definition HDR_REASON_COLS :: string where  (* UTF-8 bytes of the literal at lines 114, 350 *)
  "HDR_REASON_COLS =
     ''|'' @ [CHR 0xE4, CHR 0xB8, CHR 0x8D, CHR 0xE4, CHR 0xB8, CHR 0x80, CHR 0xE8,
     CHR 0x87, CHR 0xB4, CHR 0xE9, CHR 0xA1, CHR 0x9E, CHR 0xE5, CHR 0x9E, CHR 0x8B] @ ''|''
     @ [CHR 0xE6, CHR 0x96, CHR 0x87, CHR 0xE4, CHR 0xBB, CHR 0xB6, CHR 0xE9, CHR 0xA1,
     CHR 0x8C, CHR 0xE7, CHR 0x9B, CHR 0xAE, CHR 0xE7, CHR 0xAD, CHR 0x86, CHR 0xE6,
     CHR 0x95, CHR 0xB8] @ ''|'' @ [CHR 0xE6, CHR 0xB6, CHR 0x89, CHR 0xE5, CHR 0x8F,
     CHR 0x8A, CHR 0xE9, CHR 0xA1, CHR 0x8C, CHR 0xE7, CHR 0x9B, CHR 0xAE, CHR 0xE6,
     CHR 0x95, CHR 0xB8] @ ''|''"

definition HDR_REASON_RULE :: string where  (* UTF-8 bytes of the literal at lines 115, 351 *)
  "HDR_REASON_RULE =
     ''|---|---:|---:|''"

definition ROW_NO_REASON :: string where  (* UTF-8 bytes of the literal at line 357 *)
  "ROW_NO_REASON =
     ''|'' @ [CHR 0xEF, CHR 0xBC, CHR 0x88, CHR 0xE7, CHR 0x84, CHR 0xA1, CHR 0xEF,
     CHR 0xBC, CHR 0x89] @ ''|0|0|''"

definition HDR_SAMPLES :: string where  (* UTF-8 bytes of the literal at lines 121, 361 *)
  "HDR_SAMPLES =
     ''## '' @ [CHR 0xE5, CHR 0x89, CHR 0x8D] @ '' 20 '' @ [CHR 0xE7, CHR 0xAD, CHR 0x86,
     CHR 0xE6, CHR 0x98, CHR 0x8E, CHR 0xE7, CHR 0xB4, CHR 0xB0]"

definition HDR_SAMPLE_COLS :: string where  (* UTF-8 bytes of the literal at lines 123, 363 *)
  "HDR_SAMPLE_COLS =
     ''|'' @ [CHR 0xE6, CHR 0x96, CHR 0x87, CHR 0xE4, CHR 0xBB, CHR 0xB6, CHR 0xE9,
     CHR 0xA1, CHR 0x8C, CHR 0xE7, CHR 0x9B, CHR 0xAE] @ '' Id|'' @ [CHR 0xE9, CHR 0xA1,
     CHR 0x8C, CHR 0xE7, CHR 0x9B, CHR 0xAE] @ '' Id|'' @ [CHR 0xE4, CHR 0xBA, CHR 0x94,
     CHR 0xE6, CHR 0xAC, CHR 0x84, CHR 0xE6, CHR 0xAA, CHR 0x94, CHR 0xE6, CHR 0xA1,
     CHR 0x88] @ '' Id|'' @ [CHR 0xE4, CHR 0xBA, CHR 0x94, CHR 0xE6, CHR 0xAC, CHR 0x84,
     CHR 0xE6, CHR 0xAA, CHR 0x94, CHR 0xE6, CHR 0xA1, CHR 0x88, CHR 0xE5, CHR 0x84,
     CHR 0xB2, CHR 0xE5, CHR 0xAD, CHR 0x98, CHR 0xE5, CHR 0xBA, CHR 0xAB] @ '' Id|'' @
     [CHR 0xE5, CHR 0x84, CHR 0xB2, CHR 0xE5, CHR 0xAD, CHR 0x98, CHR 0xE5, CHR 0xBA,
     CHR 0xAB, CHR 0xE5, CHR 0xAD, CHR 0xB8, CHR 0xE7, CHR 0xA8, CHR 0x8B] @ '' Id|'' @
     [CHR 0xE9, CHR 0xA1, CHR 0x8C, CHR 0xE7, CHR 0x9B, CHR 0xAE, CHR 0xE5, CHR 0xAD,
     CHR 0xB8, CHR 0xE7, CHR 0xA8, CHR 0x8B] @ '' Id '' @ [CHR 0xE6, CHR 0xB8, CHR 0x85,
     CHR 0xE5, CHR 0x96, CHR 0xAE] @ ''|'' @ [CHR 0xE4, CHR 0xB8, CHR 0x8D, CHR 0xE4,
     CHR 0xB8, CHR 0x80, CHR 0xE8, CHR 0x87, CHR 0xB4, CHR 0xE5, CHR 0x8E, CHR 0x9F,
     CHR 0xE5, CHR 0x9B, CHR 0xA0] @ ''|''"

definition HDR_SAMPLE_RULE :: string where  (* UTF-8 bytes of the literal at lines 124, 364 *)
  "HDR_SAMPLE_RULE =
     ''|---|---|---|---|---|---|---|''"

subsection \<open>Types (lines 29-56)\<close>

text \<open>
  A JavaScript \<open>Set<string>\<close> iterates in insertion order, so it is a list without
  repetition; \<open>Array.from\<close> of it is that list. A \<open>Map\<close> iterates in insertion order
  of its keys, so it is an association list, with \<open>AList.update\<close> as \<open>Map.set\<close>
  (an existing key keeps its place, a new key goes to the end).
\<close>

record ReasonStats =
  count :: nat
  itemIds :: "string list"

record SampleRow =
  s_documentItemId :: string
  s_itemId :: string
  s_documentId :: string
  s_documentRepoId :: string
  s_repoBodyOfKnowledgeId :: string
  s_itemYearBodies :: "string list"
  s_mismatchReason :: string

record DocumentItemRow =
  row_documentItemId :: string
  row_itemId :: string
  row_documentId :: string

text \<open>
  The checkpoint as it is in the file. \<open>cp_reasonStats\<close> lists the entries of the JSON
  object in the order \<open>Object.keys\<close> enumerates them; in a parsed object the keys are
  distinct. The script builds the object from the entries of its map, which it filled from
  a parsed object and then with the one reason of line 232, so the object enumerates its
  keys in the order of the map. A reason named \<open>__proto__\<close>, which an assignment to a
  plain object does not store as a key, is left out of account: no scan puts it there.
\<close>

record Checkpoint =
  cp_lastDocumentItemId :: "string option"
  cp_documentItemCount :: nat
  cp_allItemIds :: "string list"
  cp_reasonStats :: "(string \<times> ReasonStats) list"
  cp_samples :: "SampleRow list"

text \<open>The documents of the four collections, with the fields the script projects.\<close>

record RepoDoc =
  repo_id :: string
  repo_bodyOfKnowledgeId :: "string option"

record DocumentDoc =
  doc_id :: string
  doc_documentRepoId :: "string option"

record ItemYearDoc =
  iy_itemId :: "string option"
  iy_bodyOfKnowledgeId :: "string option"

record DocumentItemDoc =
  di_id :: string
  di_itemId :: "string option"
  di_documentId :: "string option"
  di_addedOn :: "int option"

record Db =
  DocumentRepositories :: "RepoDoc list"
  Documents :: "DocumentDoc list"
  ItemYearDimensionValues :: "ItemYearDoc list"
  DocumentItems :: "DocumentItemDoc list"

text \<open>
  The command line (lines 17-27). \<open>maxBatches\<close> is \<open>None\<close> when the flag is absent and
  also when \<open>Number\<close> yields NaN, since \<open>batchIndex >= NaN\<close> is false like the test
  against \<open>null\<close>; a number that is not an integer compares with \<open>batchIndex\<close> as
  the next integer above it does. A date is its time value.
\<close>

record Args =
  maxBatches :: "int option"
  finalizeOnly :: bool
  startDate :: "int option"
  endDate :: "int option"

subsection \<open>JavaScript idioms\<close>

definition str_or :: "string option \<Rightarrow> string \<Rightarrow> string" where
  \<comment> \<open>\<open>x ? String(x) : d\<close> and \<open>x || d\<close> on a string field: undefined and '' are falsy\<close>
  "str_or x d = (case x of None \<Rightarrow> d | Some s \<Rightarrow> if s = [] then d else s)"

definition set_add :: "'a \<Rightarrow> 'a list \<Rightarrow> 'a list" where
  \<comment> \<open>\<open>Set.prototype.add\<close>\<close>
  "set_add x xs = (if x \<in> set xs then xs else xs @ [x])"

definition new_Set :: "'a list \<Rightarrow> 'a list" where
  \<comment> \<open>\<open>new Set(xs)\<close>\<close>
  "new_Set xs = foldl (\<lambda>s x. set_add x s) [] xs"

definition join :: "string \<Rightarrow> string list \<Rightarrow> string" where
  \<comment> \<open>\<open>Array.prototype.join\<close>\<close>
  "join sep xs = (case xs of [] \<Rightarrow> [] | y # ys \<Rightarrow> foldl (\<lambda>acc x. acc @ sep @ x) y ys)"

definition digit :: "nat \<Rightarrow> char" where
  "digit d = char_of (48 + d)"

function show_nat :: "nat \<Rightarrow> string" where
  "show_nat n = (if n < 10 then [digit n] else show_nat (n div 10) @ [digit (n mod 10)])"
  by pat_completeness auto
termination
  by (relation "measure id") auto

declare show_nat.simps [simp del]

subsection \<open>Checkpoint store (lines 58-71)\<close>

text \<open>
  What the checkpoint file holds, as far as the script tells contents apart: text that
  \<open>trim\<close> empties; the text \<open>JSON.stringify\<close> gives for a checkpoint, which
  \<open>JSON.parse\<close> reads back as that checkpoint; text that \<open>JSON.parse\<close> reads as a
  falsy value (\<open>null\<close>, \<open>false\<close>, \<open>0\<close>, \<open>""\<close>), which every test and every
  \<open>checkpoint?.\<close> of the script treats as it treats \<open>null\<close>; and text on which
  \<open>JSON.parse\<close> throws. An absent file is \<open>None\<close>.
\<close>

datatype file_content = Blank | Json Checkpoint | JsonFalsy | Malformed

datatype error = SyntaxError

definition loadCheckpoint :: "file_content option \<Rightarrow> error + Checkpoint option" where
  "loadCheckpoint file =
     (case file of
        None \<Rightarrow> Inr None
      | Some Blank \<Rightarrow> Inr None
      | Some (Json checkpoint) \<Rightarrow> Inr (Some checkpoint)
      | Some JsonFalsy \<Rightarrow> Inr None
      | Some Malformed \<Rightarrow> Inl SyntaxError)"

text \<open>
  A call of Node's \<open>fs\<close> module that changes a file; the script makes no other kind.
\<close>

datatype fs_call = WriteFileSync string file_content

definition saveCheckpoint :: "string \<Rightarrow> Checkpoint \<Rightarrow> fs_call list" where
  \<comment> \<open>the calls that one invocation makes, line 70\<close>
  "saveCheckpoint filePath checkpoint = [WriteFileSync filePath (Json checkpoint)]"

fun written :: "string \<Rightarrow> file_content option \<Rightarrow> fs_call \<Rightarrow> file_content option" where
  \<comment> \<open>the content of the file at \<open>path\<close> once the call has returned\<close>
  "written path file (WriteFileSync p data) = (if p = path then Some data else file)"

definition checkpointPath :: string where
  \<comment> \<open>line 75, relative to \<open>__dirname\<close>\<close>
  "checkpointPath = ''../outputs/'' @ CHECKPOINT_FILE_NAME"

definition outputPath :: string where
  \<comment> \<open>line 74, relative to \<open>__dirname\<close>\<close>
  "outputPath = ''../outputs/'' @ OUTPUT_FILE_NAME"

subsection \<open>Aggregates and their restoration from a checkpoint (lines 87-97)\<close>

record Aggregates =
  documentItemCount :: nat
  allItemIds :: "string list"
  reasonStats :: "(string \<times> ReasonStats) list"
  samples :: "SampleRow list"

definition restore_reasonStats :: "(string \<times> ReasonStats) list \<Rightarrow> (string \<times> ReasonStats) list" where
  "restore_reasonStats obj =
     foldl (\<lambda>m reason.
              case map_of obj reason of
                None \<Rightarrow> m
              | Some stat \<Rightarrow>
                  AList.update reason \<lparr>count = count stat, itemIds = new_Set (itemIds stat)\<rparr> m)
       [] (map fst obj)"

definition restore :: "Checkpoint option \<Rightarrow> Aggregates" where
  "restore checkpoint =
     (case checkpoint of
        None \<Rightarrow> \<lparr>documentItemCount = 0, allItemIds = [], reasonStats = [], samples = []\<rparr>
      | Some cp \<Rightarrow>
          \<lparr>documentItemCount = cp_documentItemCount cp,
           allItemIds = new_Set (cp_allItemIds cp),
           reasonStats = restore_reasonStats (cp_reasonStats cp),
           samples = cp_samples cp\<rparr>)"

definition checkpointData :: "string option \<Rightarrow> Aggregates \<Rightarrow> Checkpoint" where
  \<comment> \<open>lines 298-310 and 325-337\<close>
  "checkpointData lastProcessedId a =
     \<lparr>cp_lastDocumentItemId = lastProcessedId,
      cp_documentItemCount = documentItemCount a,
      cp_allItemIds = allItemIds a,
      cp_reasonStats =
        foldl (\<lambda>acc (reason, stat).
                 AList.update reason \<lparr>count = count stat, itemIds = itemIds stat\<rparr> acc)
          [] (reasonStats a),
      cp_samples = samples a\<rparr>"

subsection \<open>Reference maps (lines 150-180)\<close>

definition load_repoBodyMap :: "RepoDoc list \<Rightarrow> (string \<rightharpoonup> string)" where
  "load_repoBodyMap repos =
     foldl (\<lambda>m repo.
              m(str_or (Some (repo_id repo)) UNKNOWN \<mapsto> str_or (repo_bodyOfKnowledgeId repo) []))
       Map.empty repos"

definition load_documentRepoMap :: "DocumentDoc list \<Rightarrow> (string \<rightharpoonup> string)" where
  "load_documentRepoMap docs =
     foldl (\<lambda>m doc.
              m(str_or (Some (doc_id doc)) UNKNOWN \<mapsto> str_or (doc_documentRepoId doc) []))
       Map.empty docs"

subsection \<open>processBatch (lines 192-255)\<close>

definition find_itemYear :: "ItemYearDoc list \<Rightarrow> string list \<Rightarrow> ItemYearDoc list" where
  \<comment> \<open>the query \<open>{itemId: {$in: itemIdList}}\<close>, in the collection's order\<close>
  "find_itemYear coll itemIdList =
     filter (\<lambda>row. case iy_itemId row of None \<Rightarrow> False | Some i \<Rightarrow> i \<in> set itemIdList) coll"

definition itemYearMap_step :: "(string \<rightharpoonup> string list) \<Rightarrow> ItemYearDoc \<Rightarrow> (string \<rightharpoonup> string list)" where
  \<comment> \<open>the body of the loop at lines 206-218\<close>
  "itemYearMap_step m row =
     (let itemId = str_or (iy_itemId row) UNKNOWN;
          bodyId = str_or (iy_bodyOfKnowledgeId row) []
      in if bodyId = [] then m
         else (case m itemId of
                 Some existing \<Rightarrow> m(itemId \<mapsto> set_add bodyId existing)
               | None \<Rightarrow> m(itemId \<mapsto> [bodyId])))"

definition build_itemYearMap :: "ItemYearDoc list \<Rightarrow> string list \<Rightarrow> (string \<rightharpoonup> string list)" where
  "build_itemYearMap coll itemIdList =
     foldl itemYearMap_step Map.empty (find_itemYear coll itemIdList)"

definition classify_row ::
  "(string \<rightharpoonup> string) \<Rightarrow> (string \<rightharpoonup> string) \<Rightarrow> (string \<rightharpoonup> string list) \<Rightarrow>
   Aggregates \<Rightarrow> DocumentItemRow \<Rightarrow> Aggregates" where
  \<comment> \<open>the callback of \<open>rows.forEach\<close>, lines 220-254\<close>
  "classify_row documentRepoMap repoBodyMap itemYearMap a row =
     (let repoId = str_or (documentRepoMap (row_documentId row)) [];
          repoBodyId = str_or (repoBodyMap repoId) [];
          itemYearBodies = itemYearMap (row_itemId row)
      in if repoId = [] \<or> repoBodyId = [] then a
         else (case itemYearBodies of
                 None \<Rightarrow> a
               | Some bodies \<Rightarrow>
                   if length bodies = 0 then a
                   else if repoBodyId \<notin> set bodies then
                     (let stat = (case map_of (reasonStats a) MISMATCH_REASON of
                                    Some st \<Rightarrow> st
                                  | None \<Rightarrow> \<lparr>count = 0, itemIds = []\<rparr>);
                          stat' = \<lparr>count = count stat + 1,
                                   itemIds = set_add (row_itemId row) (itemIds stat)\<rparr>
                      in \<lparr>documentItemCount = documentItemCount a + 1,
                          allItemIds = set_add (row_itemId row) (allItemIds a),
                          reasonStats = AList.update MISMATCH_REASON stat' (reasonStats a),
                          samples =
                            (if length (samples a) < SAMPLE_LIMIT
                             then samples a @
                                  [\<lparr>s_documentItemId = row_documentItemId row,
                                    s_itemId = row_itemId row,
                                    s_documentId = row_documentId row,
                                    s_documentRepoId = repoId,
                                    s_repoBodyOfKnowledgeId = repoBodyId,
                                    s_itemYearBodies = bodies,
                                    s_mismatchReason = MISMATCH_REASON\<rparr>]
                             else samples a)\<rparr>)
                   else a))"

text \<open>
  The state of the scan: the variables of lines 184-190, the aggregates, the checkpoint
  file, and two logs that the script does not keep: every call of \<open>processBatch\<close> with its
  arguments, and every checkpoint written.
\<close>

record Scan =
  agg :: Aggregates
  scannedDocumentItems :: nat
  batchIndex :: nat
  batchesSinceSave :: nat
  lastProcessedId :: "string option"
  batchRows :: "DocumentItemRow list"
  batchItemIds :: "string list"
  checkpointFile :: "file_content option"
  calls :: "(DocumentItemRow list \<times> string list) list"
  saved :: "Checkpoint list"

record Refs =
  documentRepoMap :: "string \<rightharpoonup> string"
  repoBodyMap :: "string \<rightharpoonup> string"
  itemYears :: "ItemYearDoc list"

definition processBatch :: "Refs \<Rightarrow> DocumentItemRow list \<Rightarrow> string list \<Rightarrow> Scan \<Rightarrow> Scan" where
  "processBatch refs rows ids st =
     (let st = st\<lparr>calls := calls st @ [(rows, ids)]\<rparr>
      in if length rows = 0 then st
         else
           (let itemYearMap = build_itemYearMap (itemYears refs) ids
            in st\<lparr>batchIndex := batchIndex st + 1,
                  agg := foldl (classify_row (documentRepoMap refs) (repoBodyMap refs) itemYearMap)
                           (agg st) rows\<rparr>))"

subsection \<open>The cursor over DocumentItems (lines 257-275)\<close>

record Query =
  q_id_gt :: "string option"
  q_addedOn_gte :: "int option"
  q_addedOn_lt :: "int option"

definition documentItemQuery :: "string option \<Rightarrow> int option \<Rightarrow> int option \<Rightarrow> Query" where
  "documentItemQuery lastDocumentItemId start end =
     (let q = (if str_or lastDocumentItemId [] \<noteq> []
               then \<lparr>q_id_gt = lastDocumentItemId, q_addedOn_gte = None, q_addedOn_lt = None\<rparr>
               else \<lparr>q_id_gt = None, q_addedOn_gte = None, q_addedOn_lt = None\<rparr>)
      in if start \<noteq> None \<or> end \<noteq> None
         then q\<lparr>q_addedOn_gte := start, q_addedOn_lt := end\<rparr>
         else q)"

text \<open>
  MongoDB's reading of the filter: \<open>$gt\<close> on \<open>_id\<close> compares strings, and a bound on
  \<open>addedOn\<close> holds only of a document that has the field.
\<close>

definition matches :: "Query \<Rightarrow> DocumentItemDoc \<Rightarrow> bool" where
  "matches q d \<longleftrightarrow>
     (case q_id_gt q of None \<Rightarrow> True | Some k \<Rightarrow> k < di_id d) \<and>
     (case q_addedOn_gte q of
        None \<Rightarrow> True
      | Some lo \<Rightarrow> (case di_addedOn d of None \<Rightarrow> False | Some t \<Rightarrow> lo \<le> t)) \<and>
     (case q_addedOn_lt q of
        None \<Rightarrow> True
      | Some hi \<Rightarrow> (case di_addedOn d of None \<Rightarrow> False | Some t \<Rightarrow> t < hi))"

definition find_documentItems :: "Query \<Rightarrow> DocumentItemDoc list \<Rightarrow> DocumentItemDoc list" where
  \<comment> \<open>\<open>find(query).sort({_id: 1})\<close>\<close>
  "find_documentItems q coll = sort_key di_id (filter (matches q) coll)"

subsection \<open>The scan loop (lines 277-321)\<close>

definition write_checkpoint :: "Checkpoint \<Rightarrow> Scan \<Rightarrow> Scan" where
  "write_checkpoint cp st =
     st\<lparr>checkpointFile :=
          foldl (written checkpointPath) (checkpointFile st) (saveCheckpoint checkpointPath cp),
        saved := saved st @ [cp]\<rparr>"

definition documentItemRow_of :: "DocumentItemDoc \<Rightarrow> DocumentItemRow" where
  \<comment> \<open>lines 283-287\<close>
  "documentItemRow_of row =
     \<lparr>row_documentItemId = str_or (Some (di_id row)) UNKNOWN,
      row_itemId = str_or (di_itemId row) UNKNOWN,
      row_documentId = str_or (di_documentId row) []\<rparr>"

definition absorb :: "DocumentItemDoc \<Rightarrow> Scan \<Rightarrow> Scan" where
  \<comment> \<open>lines 278-289\<close>
  "absorb row st =
     (let r = documentItemRow_of row
      in st\<lparr>scannedDocumentItems := scannedDocumentItems st + 1,
            batchRows := batchRows st @ [r],
            batchItemIds := set_add (row_itemId r) (batchItemIds st),
            lastProcessedId := Some (row_documentItemId r)\<rparr>)"

definition flush :: "Refs \<Rightarrow> Scan \<Rightarrow> Scan" where
  \<comment> \<open>lines 292-314\<close>
  "flush refs st =
     (let st = processBatch refs (batchRows st) (batchItemIds st) st;
          st = st\<lparr>batchRows := [], batchItemIds := [],
                  batchesSinceSave := batchesSinceSave st + 1\<rparr>
      in if batchesSinceSave st \<ge> CHECKPOINT_SAVE_INTERVAL
         then (write_checkpoint (checkpointData (lastProcessedId st) (agg st)) st)
                \<lparr>batchesSinceSave := 0\<rparr>
         else st)"

definition stop_requested :: "int option \<Rightarrow> Scan \<Rightarrow> bool" where
  \<comment> \<open>line 316\<close>
  "stop_requested maxB st = (case maxB of None \<Rightarrow> False | Some n \<Rightarrow> int (batchIndex st) \<ge> n)"

fun scan :: "Refs \<Rightarrow> int option \<Rightarrow> Scan \<Rightarrow> DocumentItemDoc list \<Rightarrow> Scan" where
  "scan refs maxB st [] = st"
| "scan refs maxB st (row # cursor) =
     (let st = absorb row st
      in if length (batchItemIds st) \<ge> BATCH_SIZE
         then (let st = flush refs st
               in if stop_requested maxB st then st else scan refs maxB st cursor)
         else scan refs maxB st cursor)"

definition load_refs :: "Db \<Rightarrow> Refs" where
  \<comment> \<open>lines 150-180; ItemYearDimensionValues is queried once per batch\<close>
  "load_refs db =
     \<lparr>documentRepoMap = load_documentRepoMap (Documents db),
      repoBodyMap = load_repoBodyMap (DocumentRepositories db),
      itemYears = ItemYearDimensionValues db\<rparr>"

definition lastDocumentItemId_of :: "Checkpoint option \<Rightarrow> string option" where
  \<comment> \<open>line 78: \<open>checkpoint?.lastDocumentItemId\<close>\<close>
  "lastDocumentItemId_of checkpoint =
     (case checkpoint of None \<Rightarrow> None | Some cp \<Rightarrow> cp_lastDocumentItemId cp)"

definition documentItemCursor :: "Args \<Rightarrow> Db \<Rightarrow> string option \<Rightarrow> DocumentItemDoc list" where
  \<comment> \<open>lines 257-275\<close>
  "documentItemCursor args db lastDocumentItemId =
     find_documentItems
       (documentItemQuery lastDocumentItemId (startDate args) (endDate args))
       (DocumentItems db)"

definition initial_scan :: "file_content option \<Rightarrow> Checkpoint option \<Rightarrow> Scan" where
  \<comment> \<open>lines 87-97 and 184-190\<close>
  "initial_scan file checkpoint =
     \<lparr>agg = restore checkpoint, scannedDocumentItems = 0, batchIndex = 0,
      batchesSinceSave = 0, lastProcessedId = lastDocumentItemId_of checkpoint,
      batchRows = [], batchItemIds = [], checkpointFile = file,
      calls = [], saved = []\<rparr>"

definition scan_run :: "Args \<Rightarrow> Db \<Rightarrow> file_content option \<Rightarrow> Checkpoint option \<Rightarrow> Scan" where
  \<comment> \<open>lines 150-338: from loading the reference maps to the final checkpoint\<close>
  "scan_run args db file checkpoint =
     (let refs = load_refs db;
          st = initial_scan file checkpoint;
          cursor = documentItemCursor args db (lastDocumentItemId_of checkpoint);
          st = scan refs (maxBatches args) st cursor;
          st = processBatch refs (batchRows st) (batchItemIds st) st
      in write_checkpoint (checkpointData (lastProcessedId st) (agg st)) st)"

subsection \<open>The report (lines 103-147 and 340-385)\<close>

definition report_head :: "string \<Rightarrow> Aggregates \<Rightarrow> string list" where
  "report_head now a =
     [HDR_TITLE,
      [],
      HDR_QUERY_TIME @ now,
      HDR_ROW_COUNT @ show_nat (documentItemCount a),
      HDR_ITEM_COUNT @ show_nat (length (allItemIds a)),
      [],
      HDR_REASONS,
      [],
      HDR_REASON_COLS,
      HDR_REASON_RULE]"

definition reason_lines :: "Aggregates \<Rightarrow> string list" where
  "reason_lines a =
     map (\<lambda>(reason, stat).
            ''|'' @ reason @ ''|'' @ show_nat (count stat) @ ''|'' @
            show_nat (length (itemIds stat)) @ ''|'')
       (reasonStats a)"

definition sample_line :: "SampleRow \<Rightarrow> string" where
  "sample_line sample =
     ''|'' @ s_documentItemId sample @ ''|'' @ s_itemId sample @ ''|'' @
     s_documentId sample @ ''|'' @ s_documentRepoId sample @ ''|'' @
     s_repoBodyOfKnowledgeId sample @ ''|'' @ join '', '' (s_itemYearBodies sample) @ ''|'' @
     s_mismatchReason sample @ ''|''"

definition sample_lines :: "Aggregates \<Rightarrow> string list" where
  "sample_lines a =
     [[], HDR_SAMPLES, [], HDR_SAMPLE_COLS, HDR_SAMPLE_RULE] @ map sample_line (samples a)"

definition finalize_lines :: "string \<Rightarrow> Aggregates \<Rightarrow> string list" where
  \<comment> \<open>lines 104-143\<close>
  "finalize_lines now a = report_head now a @ reason_lines a @ sample_lines a"

definition final_lines :: "string \<Rightarrow> Aggregates \<Rightarrow> string list" where
  \<comment> \<open>lines 340-383\<close>
  "final_lines now a =
     report_head now a @ reason_lines a @
     (if length (reasonStats a) = 0 then [ROW_NO_REASON] else []) @ sample_lines a"

subsection \<open>The program (lines 73-389)\<close>

text \<open>
  The files the script reads and writes: \<open>checkpoint_file\<close> is the file at
  \<open>checkpointPath\<close> and \<open>output_file\<close> the file at \<open>outputPath\<close>, absent when
  \<open>None\<close>. The console holds the failure message the script prints; its progress
  messages are left out. \<open>now\<close> is the text of \<open>new Date().toLocaleString('zh-TW')\<close>
  at the moment the report is rendered.
\<close>

record World =
  checkpoint_file :: "file_content option"
  output_file :: "string option"
  console :: "string list"

definition main :: "Args \<Rightarrow> string \<Rightarrow> Db \<Rightarrow> World \<Rightarrow> error + World" where
  "main args now db w =
     (case loadCheckpoint (checkpoint_file w) of
        Inl e \<Rightarrow> Inl e
      | Inr checkpoint \<Rightarrow>
          if finalizeOnly args \<and> checkpoint = None
          then Inr (w\<lparr>console := console w @ [MSG_NO_CHECKPOINT]\<rparr>)
          else if finalizeOnly args
          then Inr (w\<lparr>output_file :=
                        Some (join ''\<newline>'' (finalize_lines now (restore checkpoint)))\<rparr>)
          else (let st = scan_run args db (checkpoint_file w) checkpoint
                in Inr (w\<lparr>checkpoint_file := checkpointFile st,
                          output_file := Some (join ''\<newline>'' (final_lines now (agg st)))\<rparr>)))"

section \<open>Notions used in the statements and proofs\<close>

text \<open>
  The classification of one row on its own: with the bodies that a lookup of just this
  row's item id in ItemYearDimensionValues resolves.
\<close>

definition classify :: "Refs \<Rightarrow> Aggregates \<Rightarrow> DocumentItemRow \<Rightarrow> Aggregates" where
  "classify refs a row =
     classify_row (documentRepoMap refs) (repoBodyMap refs)
       (build_itemYearMap (itemYears refs) [row_itemId row]) a row"

text \<open>
  The batch buffer is in step: \<open>batchItemIds\<close> is the set of the item ids of
  \<open>batchRows\<close>, none of them empty.
\<close>

definition buffered :: "Scan \<Rightarrow> bool" where
  "buffered st \<longleftrightarrow>
     batchItemIds st = new_Set (map row_itemId (batchRows st)) \<and>
     [] \<notin> row_itemId ` set (batchRows st)"

text \<open>The aggregates once the rows still waiting in the batch buffer are classified too.\<close>

definition pending :: "Refs \<Rightarrow> Scan \<Rightarrow> Aggregates" where
  "pending refs st = foldl (classify refs) (agg st) (batchRows st)"

text \<open>
  A loop that started in \<open>st\<close> and ended in \<open>st'\<close> has read the rows \<open>pre\<close> of its
  cursor and left the rows \<open>suf\<close> unread: every row read is in a batch handed to
  \<open>processBatch\<close> or still in the buffer, in the order read.
\<close>

definition consumed ::
  "Refs \<Rightarrow> int option \<Rightarrow> Scan \<Rightarrow> Scan \<Rightarrow> DocumentItemDoc list \<Rightarrow> DocumentItemDoc list \<Rightarrow> bool" where
  "consumed refs maxB st st' pre suf \<longleftrightarrow>
     scannedDocumentItems st' = scannedDocumentItems st + length pre \<and>
     pending refs st' = foldl (classify refs) (pending refs st) (map documentItemRow_of pre) \<and>
     lastProcessedId st' =
       (if pre = [] then lastProcessedId st
        else Some (row_documentItemId (documentItemRow_of (last pre)))) \<and>
     (suf \<noteq> [] \<longrightarrow> pre \<noteq> [] \<and> batchRows st' = [] \<and> stop_requested maxB st' \<and>
                    BATCH_SIZE \<le> length (batchRows st) + length pre) \<and>
     concat (map fst (calls st')) @ batchRows st' =
       concat (map fst (calls st)) @ batchRows st @ map documentItemRow_of pre \<and>
     buffered st'"

text \<open>
  A checkpoint taken after the rows \<open>pre\<close> of the cursor, \<open>n\<close> rows having been in the
  buffer before the first of them.
\<close>

definition snapshot ::
  "Refs \<Rightarrow> Aggregates \<Rightarrow> nat \<Rightarrow> DocumentItemDoc list \<Rightarrow> Checkpoint \<Rightarrow> bool" where
  "snapshot refs a n cursor cp \<longleftrightarrow>
     (\<exists>pre suf. cursor = pre @ suf \<and> pre \<noteq> [] \<and> BATCH_SIZE \<le> n + length pre \<and>
        cp = checkpointData (Some (row_documentItemId (documentItemRow_of (last pre))))
               (foldl (classify refs) a (map documentItemRow_of pre)))"

text \<open>Aggregates whose sets and map are without repetition, as JavaScript keeps them.\<close>

definition normal :: "Aggregates \<Rightarrow> bool" where
  "normal a \<longleftrightarrow>
     distinct (allItemIds a) \<and> distinct (map fst (reasonStats a)) \<and>
     (\<forall>(r, s) \<in> set (reasonStats a). distinct (itemIds s))"

text \<open>
  The aggregates agree with each other: the global counter is the sum of the counters of
  the reasons, and the global id set is the union of the id sets of the reasons.
\<close>

definition consistent :: "Aggregates \<Rightarrow> bool" where
  "consistent a \<longleftrightarrow>
     documentItemCount a = sum_list (map (\<lambda>(reason, stat). count stat) (reasonStats a)) \<and>
     set (allItemIds a) = (\<Union>(reason, stat) \<in> set (reasonStats a). set (itemIds stat))"

text \<open>
  A batch that was flushed because it reached the threshold: it has exactly
  \<open>BATCH_SIZE\<close> distinct item ids, and fewer without its last row.
\<close>

definition full_batch :: "DocumentItemRow list \<times> string list \<Rightarrow> bool" where
  "full_batch call \<longleftrightarrow>
     (case call of (rows, ids) \<Rightarrow>
        rows \<noteq> [] \<and> ids = new_Set (map row_itemId rows) \<and> length ids = BATCH_SIZE \<and>
        length (new_Set (map row_itemId (butlast rows))) < BATCH_SIZE)"

text \<open>
  The rows that a resumed, date-bounded scan is to read, in the words of the specification:
  the key is strictly greater than the last checkpointed key, the timestamp is at least
  the lower bound and strictly less than the upper bound.
\<close>

definition in_range :: "string option \<Rightarrow> int option \<Rightarrow> int option \<Rightarrow> DocumentItemDoc \<Rightarrow> bool" where
  "in_range lastKey lower upper d \<longleftrightarrow>
     (case lastKey of None \<Rightarrow> True | Some k \<Rightarrow> k < di_id d) \<and>
     (case lower of None \<Rightarrow> True
      | Some lo \<Rightarrow> (case di_addedOn d of None \<Rightarrow> False | Some t \<Rightarrow> lo \<le> t)) \<and>
     (case upper of None \<Rightarrow> True
      | Some hi \<Rightarrow> (case di_addedOn d of None \<Rightarrow> False | Some t \<Rightarrow> t < hi))"

text \<open>
  Write-then-replace, in the words of the specification: the file at \<open>filePath\<close> is
  never the target of a write; its content could then only change by being replaced whole.
\<close>

definition write_then_replace :: "string \<Rightarrow> fs_call list \<Rightarrow> bool" where
  "write_then_replace filePath fs_calls \<longleftrightarrow>
     (\<forall>call \<in> set fs_calls. case call of WriteFileSync p data \<Rightarrow> p \<noteq> filePath)"

text \<open>
  The checkpoints that the program can find when it starts: none, or one that an earlier
  scan saved, that scan having started in the same way.
\<close>

inductive written_by_scan :: "Checkpoint option \<Rightarrow> bool" where
  fresh: "written_by_scan None"
| resumed: "written_by_scan c \<Longrightarrow> cp \<in> set (saved (scan_run args db fl c)) \<Longrightarrow>
            written_by_scan (Some cp)"

section \<open>Example data\<close>

text \<open>
  Three rows of DocumentItems over two repositories: the item of D1 has the body of its
  repository, the item of D2 has another body, and the item of D3 has no bodies at all.
\<close>

definition ex_db :: Db where
  "ex_db =
     \<lparr>DocumentRepositories =
        [\<lparr>repo_id = ''R1'', repo_bodyOfKnowledgeId = Some ''bodyA''\<rparr>,
         \<lparr>repo_id = ''R2'', repo_bodyOfKnowledgeId = Some ''bodyB''\<rparr>],
      Documents =
        [\<lparr>doc_id = ''X1'', doc_documentRepoId = Some ''R1''\<rparr>,
         \<lparr>doc_id = ''X2'', doc_documentRepoId = Some ''R2''\<rparr>],
      ItemYearDimensionValues =
        [\<lparr>iy_itemId = Some ''I1'', iy_bodyOfKnowledgeId = Some ''bodyA''\<rparr>,
         \<lparr>iy_itemId = Some ''I2'', iy_bodyOfKnowledgeId = Some ''bodyB''\<rparr>],
      DocumentItems =
        [\<lparr>di_id = ''D2'', di_itemId = Some ''I2'', di_documentId = Some ''X1'',
          di_addedOn = Some 5\<rparr>,
         \<lparr>di_id = ''D1'', di_itemId = Some ''I1'', di_documentId = Some ''X1'',
          di_addedOn = Some 3\<rparr>,
         \<lparr>di_id = ''D3'', di_itemId = Some ''I3'', di_documentId = Some ''X2'',
          di_addedOn = None\<rparr>]\<rparr>"

definition ex_args :: Args where
  "ex_args = \<lparr>maxBatches = None, finalizeOnly = False, startDate = None, endDate = None\<rparr>"

definition ex_sample :: SampleRow where
  "ex_sample =
     \<lparr>s_documentItemId = ''D2'', s_itemId = ''I2'', s_documentId = ''X1'',
      s_documentRepoId = ''R1'', s_repoBodyOfKnowledgeId = ''bodyA'',
      s_itemYearBodies = [''bodyB''], s_mismatchReason = MISMATCH_REASON\<rparr>"

definition ex_cp :: Checkpoint where
  \<comment> \<open>the checkpoint that a full scan of \<open>ex_db\<close> leaves behind\<close>
  "ex_cp =
     \<lparr>cp_lastDocumentItemId = Some ''D3'', cp_documentItemCount = 1,
      cp_allItemIds = [''I2''],
      cp_reasonStats = [(MISMATCH_REASON, \<lparr>count = 1, itemIds = [''I2'']\<rparr>)],
      cp_samples = [ex_sample]\<rparr>"

definition ex_cp1 :: Checkpoint where
  \<comment> \<open>the checkpoint that a scan of \<open>ex_db\<close> up to time 4 leaves behind\<close>
  "ex_cp1 =
     \<lparr>cp_lastDocumentItemId = Some ''D1'', cp_documentItemCount = 0, cp_allItemIds = [],
      cp_reasonStats = [], cp_samples = []\<rparr>"

definition ex_world :: World where
  "ex_world = \<lparr>checkpoint_file = None, output_file = None, console = []\<rparr>"

text \<open>The rows that the scan builds from D2 and D3.\<close>

definition ex_row2 :: DocumentItemRow where
  "ex_row2 = \<lparr>row_documentItemId = ''D2'', row_itemId = ''I2'', row_documentId = ''X1''\<rparr>"

definition ex_row3 :: DocumentItemRow where
  "ex_row3 = \<lparr>row_documentItemId = ''D3'', row_itemId = ''I3'', row_documentId = ''X2''\<rparr>"

definition ex_finalize :: Args where
  "ex_finalize = \<lparr>maxBatches = None, finalizeOnly = True, startDate = None, endDate = None\<rparr>"

definition ex_world_cp :: World where
  "ex_world_cp = \<lparr>checkpoint_file = Some (Json ex_cp), output_file = None, console = []\<rparr>"

text \<open>
  A command line with \<open>--max-batches 0\<close>, the rows D2 and D3 as the cursor yields them,
  and a scan state whose buffer holds 4999 rows with 4999 distinct item ids.
\<close>

definition ex_max0 :: Args where
  "ex_max0 = \<lparr>maxBatches = Some 0, finalizeOnly = False, startDate = None, endDate = None\<rparr>"

definition ex_doc2 :: DocumentItemDoc where
  "ex_doc2 = \<lparr>di_id = ''D2'', di_itemId = Some ''I2'', di_documentId = Some ''X1'',
               di_addedOn = Some 5\<rparr>"

definition ex_doc3 :: DocumentItemDoc where
  "ex_doc3 = \<lparr>di_id = ''D3'', di_itemId = Some ''I3'', di_documentId = Some ''X2'',
               di_addedOn = None\<rparr>"

definition ex_full :: Scan where
  "ex_full =
     (initial_scan None None)
       \<lparr>scannedDocumentItems := 4999,
        lastProcessedId := Some (CHR ''n'' # show_nat 4998),
        batchRows :=
          map (\<lambda>k. \<lparr>row_documentItemId = CHR ''n'' # show_nat k,
                      row_itemId = CHR ''n'' # show_nat k,
                      row_documentId = ''X1''\<rparr>) [0..<4999],
        batchItemIds := map (\<lambda>k. CHR ''n'' # show_nat k) [0..<4999]\<rparr>"

section \<open>Lemmas\<close>

lemma UNKNOWN_nonempty [simp]: "UNKNOWN \<noteq> []"
  by (simp add: UNKNOWN_def)

lemma str_or_UNKNOWN_nonempty [simp]: "str_or x UNKNOWN \<noteq> []"
  by (simp add: str_or_def split: option.splits)

lemma itemYearMap_step_other:
  "str_or (iy_itemId d) UNKNOWN \<noteq> x \<Longrightarrow> itemYearMap_step m d x = m x"
  by (simp add: itemYearMap_step_def Let_def split: option.splits)

lemma itemYearMap_step_cong:
  "m x = m' x \<Longrightarrow> itemYearMap_step m d x = itemYearMap_step m' d x"
  by (cases "str_or (iy_itemId d) UNKNOWN = x")
     (auto simp: itemYearMap_step_def Let_def split: option.splits)

lemma foldl_itemYearMap_step_filter:
  "(\<And>d. d \<in> set ds \<Longrightarrow> \<not> P d \<Longrightarrow> str_or (iy_itemId d) UNKNOWN \<noteq> x) \<Longrightarrow> m x = m' x \<Longrightarrow>
   foldl itemYearMap_step m ds x = foldl itemYearMap_step m' (filter P ds) x"
proof (induction ds arbitrary: m m')
  case Nil
  then show ?case by simp
next
  case (Cons d ds)
  show ?case
  proof (cases "P d")
    case True
    have "itemYearMap_step m d x = itemYearMap_step m' d x"
      using Cons.prems(2) by (rule itemYearMap_step_cong)
    then show ?thesis using True Cons.IH Cons.prems(1) by simp
  next
    case False
    then have "itemYearMap_step m d x = m' x"
      using Cons.prems by (simp add: itemYearMap_step_other)
    then show ?thesis using False Cons.IH Cons.prems(1) by simp
  qed
qed

lemma build_itemYearMap_by_key:
  assumes "x \<in> set ids" "[] \<notin> set ids"
  shows "build_itemYearMap coll ids x =
         foldl itemYearMap_step Map.empty (filter (\<lambda>d. iy_itemId d = Some x) coll) x"
proof -
  let ?Q = "\<lambda>d. iy_itemId d = Some x"
  have other: "str_or (iy_itemId d) UNKNOWN \<noteq> x"
    if "d \<in> set (find_itemYear coll ids)" "\<not> ?Q d" for d
    using that assms(2) by (auto simp: find_itemYear_def str_or_def split: option.splits)
  have "filter ?Q (find_itemYear coll ids) = filter ?Q coll"
    using assms(1) by (auto simp: find_itemYear_def intro!: filter_cong)
  then show ?thesis
    unfolding build_itemYearMap_def
    using foldl_itemYearMap_step_filter [of "find_itemYear coll ids" ?Q x Map.empty Map.empty] other
    by simp
qed

lemma build_itemYearMap_batch_independent:
  assumes "x \<in> set ids" "[] \<notin> set ids"
  shows "build_itemYearMap coll ids x = build_itemYearMap coll [x] x"
proof -
  have "x \<noteq> []" using assms by auto
  then show ?thesis
    using build_itemYearMap_by_key [OF assms, of coll] build_itemYearMap_by_key [of x "[x]" coll]
    by simp
qed

lemma classify_row_cong:
  "iym (row_itemId row) = iym' (row_itemId row) \<Longrightarrow>
   classify_row dm rm iym a row = classify_row dm rm iym' a row"
  by (simp add: classify_row_def)

lemma foldl_classify_row_batch:
  assumes "row_itemId ` set rows \<subseteq> set ids" "[] \<notin> set ids"
  shows "foldl (classify_row (documentRepoMap refs) (repoBodyMap refs)
                  (build_itemYearMap (itemYears refs) ids)) a rows =
         foldl (classify refs) a rows"
  using assms(1)
proof (induction rows arbitrary: a)
  case Nil
  then show ?case by simp
next
  case (Cons r rows)
  have "row_itemId r \<in> set ids" using Cons.prems by simp
  then have "classify_row (documentRepoMap refs) (repoBodyMap refs)
               (build_itemYearMap (itemYears refs) ids) a r = classify refs a r"
    unfolding classify_def
    by (intro classify_row_cong build_itemYearMap_batch_independent assms(2))
  then show ?case using Cons by simp
qed

lemma set_set_add [simp]: "set (set_add x xs) = insert x (set xs)"
  by (auto simp: set_add_def)

lemma distinct_set_add [simp]: "distinct (set_add x xs) = distinct xs"
  by (auto simp: set_add_def)

lemma new_Set_snoc: "new_Set (xs @ [x]) = set_add x (new_Set xs)"
  by (simp add: new_Set_def)

lemma new_Set_Nil [simp]: "new_Set [] = []"
  by (simp add: new_Set_def)

lemma set_new_Set [simp]: "set (new_Set xs) = set xs"
  by (induction xs rule: rev_induct) (auto simp: new_Set_snoc)

lemma distinct_new_Set [simp]: "distinct (new_Set xs)"
  by (induction xs rule: rev_induct) (auto simp: new_Set_snoc)

lemma new_Set_distinct: "distinct xs \<Longrightarrow> new_Set xs = xs"
  by (induction xs rule: rev_induct) (auto simp: new_Set_snoc set_add_def)

lemma agg_processBatch:
  assumes "row_itemId ` set rows \<subseteq> set ids" "[] \<notin> set ids"
  shows "agg (processBatch refs rows ids st) = foldl (classify refs) (agg st) rows"
  using foldl_classify_row_batch [OF assms, of refs "agg st"]
  by (cases rows) (simp_all add: processBatch_def Let_def)

lemma processBatch_fields [simp]:
  "scannedDocumentItems (processBatch refs rows ids st) = scannedDocumentItems st"
  "lastProcessedId (processBatch refs rows ids st) = lastProcessedId st"
  "batchRows (processBatch refs rows ids st) = batchRows st"
  "batchItemIds (processBatch refs rows ids st) = batchItemIds st"
  "batchesSinceSave (processBatch refs rows ids st) = batchesSinceSave st"
  "checkpointFile (processBatch refs rows ids st) = checkpointFile st"
  "saved (processBatch refs rows ids st) = saved st"
  "calls (processBatch refs rows ids st) = calls st @ [(rows, ids)]"
  "batchIndex (processBatch refs rows ids st) = (if rows = [] then batchIndex st else batchIndex st + 1)"
  by (simp_all add: processBatch_def Let_def)

lemma row_itemId_nonempty [simp]: "row_itemId (documentItemRow_of d) \<noteq> []"
  by (simp add: documentItemRow_of_def)

lemma row_itemId_nonempty' [simp]: "[] \<noteq> row_itemId (documentItemRow_of d)"
  by (simp add: documentItemRow_of_def str_or_def UNKNOWN_def split: option.splits)

lemma buffered_absorb: "buffered st \<Longrightarrow> buffered (absorb row st)"
  by (simp add: buffered_def absorb_def Let_def new_Set_snoc)

lemma pending_absorb:
  "pending refs (absorb row st) = classify refs (pending refs st) (documentItemRow_of row)"
  by (simp add: pending_def absorb_def Let_def)

lemma absorb_fields [simp]:
  "scannedDocumentItems (absorb row st) = scannedDocumentItems st + 1"
  "lastProcessedId (absorb row st) = Some (row_documentItemId (documentItemRow_of row))"
  "saved (absorb row st) = saved st"
  "calls (absorb row st) = calls st"
  "batchIndex (absorb row st) = batchIndex st"
  "agg (absorb row st) = agg st"
  "checkpointFile (absorb row st) = checkpointFile st"
  "batchRows (absorb row st) = batchRows st @ [documentItemRow_of row]"
  by (simp_all add: absorb_def Let_def)

lemma agg_flush: "buffered st \<Longrightarrow> agg (flush refs st) = pending refs st"
  by (simp add: flush_def Let_def write_checkpoint_def pending_def buffered_def agg_processBatch)

lemma flush_fields [simp]:
  "scannedDocumentItems (flush refs st) = scannedDocumentItems st"
  "lastProcessedId (flush refs st) = lastProcessedId st"
  "batchRows (flush refs st) = []"
  "batchItemIds (flush refs st) = []"
  "calls (flush refs st) = calls st @ [(batchRows st, batchItemIds st)]"
  by (simp_all add: flush_def Let_def write_checkpoint_def)

lemma buffered_flush [simp]: "buffered (flush refs st)"
  by (simp add: buffered_def)

lemma pending_flush: "buffered st \<Longrightarrow> pending refs (flush refs st) = pending refs st"
  using agg_flush [of st refs] by (simp add: pending_def)

lemma saved_flush:
  "buffered st \<Longrightarrow>
   saved (flush refs st) = saved st \<or>
   saved (flush refs st) = saved st @ [checkpointData (lastProcessedId st) (pending refs st)]"
  by (simp add: flush_def Let_def write_checkpoint_def pending_def buffered_def agg_processBatch)

lemma length_new_Set_le: "length (new_Set xs) \<le> length xs"
  by (induction xs rule: rev_induct) (auto simp: new_Set_snoc set_add_def)

lemma buffered_length: "buffered st \<Longrightarrow> length (batchItemIds st) \<le> length (batchRows st)"
  using length_new_Set_le [of "map row_itemId (batchRows st)"] by (simp add: buffered_def)

lemma scan_prefix:
  "buffered st \<Longrightarrow>
   \<exists>pre suf. cursor = pre @ suf \<and> consumed refs maxB st (scan refs maxB st cursor) pre suf"
proof (induction cursor arbitrary: st)
  case Nil
  then show ?case by (simp add: consumed_def)
next
  case (Cons row cursor)
  let ?st1 = "absorb row st"
  let ?st2 = "flush refs ?st1"
  have b1: "buffered ?st1" using Cons.prems by (rule buffered_absorb)
  have len: "length (batchItemIds ?st1) \<le> length (batchRows st) + 1"
    using buffered_length [OF b1] by simp
  consider (stop) "length (batchItemIds ?st1) \<ge> BATCH_SIZE" "stop_requested maxB ?st2"
    | (go) "length (batchItemIds ?st1) \<ge> BATCH_SIZE" "\<not> stop_requested maxB ?st2"
    | (cont) "\<not> length (batchItemIds ?st1) \<ge> BATCH_SIZE"
    by blast
  then show ?case
  proof cases
    case stop
    then have eq: "scan refs maxB st (row # cursor) = ?st2" by (simp add: Let_def)
    have "consumed refs maxB st ?st2 [row] cursor"
      using stop b1 len by (simp add: consumed_def pending_flush pending_absorb)
    then show ?thesis unfolding eq by (intro exI [of _ "[row]"] exI [of _ cursor]) simp
  next
    case go
    then have eq: "scan refs maxB st (row # cursor) = scan refs maxB ?st2 cursor"
      by (simp add: Let_def)
    obtain pre suf where *: "cursor = pre @ suf"
      "consumed refs maxB ?st2 (scan refs maxB ?st2 cursor) pre suf"
      using Cons.IH [of ?st2] by auto
    have "consumed refs maxB st (scan refs maxB ?st2 cursor) (row # pre) suf"
      using *(2) b1 by (auto simp: consumed_def pending_flush pending_absorb)
    then show ?thesis unfolding eq using *(1) by (intro exI [of _ "row # pre"] exI [of _ suf]) simp
  next
    case cont
    then have eq: "scan refs maxB st (row # cursor) = scan refs maxB ?st1 cursor"
      by (simp add: Let_def)
    obtain pre suf where *: "cursor = pre @ suf"
      "consumed refs maxB ?st1 (scan refs maxB ?st1 cursor) pre suf"
      using Cons.IH [OF b1] by auto
    have "consumed refs maxB st (scan refs maxB ?st1 cursor) (row # pre) suf"
      using *(2) by (auto simp: consumed_def pending_absorb)
    then show ?thesis unfolding eq using *(1) by (intro exI [of _ "row # pre"] exI [of _ suf]) simp
  qed
qed

lemma scan_no_stop:
  "scannedDocumentItems (scan refs None st cursor) = scannedDocumentItems st + length cursor"
  by (induction cursor arbitrary: st) (simp_all add: Let_def stop_requested_def)

lemma snapshot_first:
  "BATCH_SIZE \<le> n + 1 \<Longrightarrow>
   snapshot refs a n (row # cursor)
     (checkpointData (Some (row_documentItemId (documentItemRow_of row)))
        (classify refs a (documentItemRow_of row)))"
  unfolding snapshot_def by (intro exI [of _ "[row]"] exI [of _ cursor]) simp

lemma snapshot_Cons:
  assumes "snapshot refs (classify refs a (documentItemRow_of row)) m cursor cp" "m \<le> n + 1"
  shows "snapshot refs a n (row # cursor) cp"
proof -
  obtain pre suf where *: "cursor = pre @ suf" "pre \<noteq> []" "BATCH_SIZE \<le> m + length pre"
    "cp = checkpointData (Some (row_documentItemId (documentItemRow_of (last pre))))
            (foldl (classify refs) (classify refs a (documentItemRow_of row))
               (map documentItemRow_of pre))"
    using assms(1) unfolding snapshot_def by blast
  show ?thesis
    unfolding snapshot_def
    using * assms(2) by (intro exI [of _ "row # pre"] exI [of _ suf]) simp
qed

lemma scan_saved:
  "buffered st \<Longrightarrow>
   \<exists>new. saved (scan refs maxB st cursor) = saved st @ new \<and>
     (\<forall>cp \<in> set new. snapshot refs (pending refs st) (length (batchRows st)) cursor cp)"
proof (induction cursor arbitrary: st)
  case Nil
  then show ?case by simp
next
  case (Cons row cursor)
  let ?st1 = "absorb row st"
  let ?st2 = "flush refs ?st1"
  let ?a1 = "classify refs (pending refs st) (documentItemRow_of row)"
  have b1: "buffered ?st1" using Cons.prems by (rule buffered_absorb)
  have p1: "pending refs ?st1 = ?a1" by (rule pending_absorb)
  have len: "length (batchItemIds ?st1) \<le> length (batchRows st) + 1"
    using buffered_length [OF b1] by simp
  show ?case
  proof (cases "length (batchItemIds ?st1) \<ge> BATCH_SIZE")
    case False
    then have eq: "scan refs maxB st (row # cursor) = scan refs maxB ?st1 cursor"
      by (simp add: Let_def)
    obtain new where *: "saved (scan refs maxB ?st1 cursor) = saved ?st1 @ new"
      "\<forall>cp \<in> set new. snapshot refs ?a1 (length (batchRows ?st1)) cursor cp"
      using Cons.IH [OF b1] p1 by auto
    have "\<forall>cp \<in> set new. snapshot refs (pending refs st) (length (batchRows st)) (row # cursor) cp"
      using *(2) by (auto intro: snapshot_Cons)
    then show ?thesis unfolding eq using *(1) by simp
  next
    case True
    then have big: "BATCH_SIZE \<le> length (batchRows st) + 1" using len by simp
    obtain new1 where n1: "saved ?st2 = saved st @ new1"
      "\<forall>cp \<in> set new1. snapshot refs (pending refs st) (length (batchRows st)) (row # cursor) cp"
    proof -
      from saved_flush [OF b1, of refs]
      show ?thesis
      proof
        assume "saved ?st2 = saved ?st1"
        then show ?thesis using that [of "[]"] by simp
      next
        assume "saved ?st2 = saved ?st1 @ [checkpointData (lastProcessedId ?st1) (pending refs ?st1)]"
        then show ?thesis
          using that [of "[checkpointData (lastProcessedId ?st1) (pending refs ?st1)]"]
            snapshot_first [OF big, of refs "pending refs st" row cursor] p1
          by simp
      qed
    qed
    show ?thesis
    proof (cases "stop_requested maxB ?st2")
      case stop: True
      then have eq: "scan refs maxB st (row # cursor) = ?st2" using True by (simp add: Let_def)
      show ?thesis unfolding eq using n1 by blast
    next
      case go: False
      then have eq: "scan refs maxB st (row # cursor) = scan refs maxB ?st2 cursor"
        using True by (simp add: Let_def)
      obtain new where *: "saved (scan refs maxB ?st2 cursor) = saved ?st2 @ new"
        "\<forall>cp \<in> set new. snapshot refs ?a1 (length (batchRows ?st2)) cursor cp"
        using Cons.IH [of ?st2] p1 pending_flush [OF b1, of refs] by auto
      have "\<forall>cp \<in> set new. snapshot refs (pending refs st) (length (batchRows st)) (row # cursor) cp"
        using *(2) by (auto intro: snapshot_Cons)
      then show ?thesis unfolding eq using *(1) n1 by auto
    qed
  qed
qed

lemma update_fresh: "k \<notin> fst ` set al \<Longrightarrow> AList.update k v al = al @ [(k, v)]"
  by (induction al) auto

lemma set_update_subset: "set (AList.update k v al) \<subseteq> insert (k, v) (set al)"
  by (induction al) auto

lemma ReasonStats_eta [simp]: "\<lparr>count = count s, itemIds = itemIds s\<rparr> = (s :: ReasonStats)"
  by (cases s) simp

lemma serialize_reasonStats:
  "distinct (map fst (acc @ rs)) \<Longrightarrow>
   foldl (\<lambda>acc (reason, stat).
            AList.update reason \<lparr>count = count stat, itemIds = itemIds stat\<rparr> acc) acc rs = acc @ rs"
proof (induction rs arbitrary: acc)
  case Nil
  then show ?case by simp
next
  case (Cons p rs)
  obtain k v where p: "p = (k, v)" by (cases p)
  have "k \<notin> fst ` set acc" using Cons.prems p by auto
  then have "AList.update k v acc = acc @ [(k, v)]" by (rule update_fresh)
  then show ?case using Cons.IH [of "acc @ [(k, v)]"] Cons.prems p by simp
qed

lemma restore_reasonStats_aux:
  assumes "distinct (map fst obj)" "\<forall>(r, s) \<in> set obj. distinct (itemIds s)"
  shows "obj = acc @ rs \<Longrightarrow>
         foldl (\<lambda>m reason.
                  case map_of obj reason of
                    None \<Rightarrow> m
                  | Some stat \<Rightarrow>
                      AList.update reason \<lparr>count = count stat, itemIds = new_Set (itemIds stat)\<rparr> m)
           acc (map fst rs) = obj"
proof (induction rs arbitrary: acc)
  case Nil
  then show ?case by simp
next
  case (Cons p rs)
  obtain k v where p: "p = (k, v)" by (cases p)
  have mem: "(k, v) \<in> set obj" using Cons.prems p by simp
  then have look: "map_of obj k = Some v" using assms(1) by simp
  have "distinct (itemIds v)" using assms(2) mem by auto
  then have same: "\<lparr>count = count v, itemIds = new_Set (itemIds v)\<rparr> = v"
    by (simp add: new_Set_distinct)
  have "k \<notin> fst ` set acc" using Cons.prems assms(1) p by auto
  then have "AList.update k v acc = acc @ [(k, v)]" by (rule update_fresh)
  then show ?case using Cons.IH [of "acc @ [(k, v)]"] Cons.prems p look same by simp
qed

lemma restore_checkpointData:
  assumes "normal a"
  shows "restore (Some (checkpointData l a)) = a"
proof -
  have d: "distinct (map fst (reasonStats a))" and i: "\<forall>(r, s) \<in> set (reasonStats a). distinct (itemIds s)"
    using assms by (auto simp: normal_def)
  have ser: "cp_reasonStats (checkpointData l a) = reasonStats a"
    using serialize_reasonStats [of "[]" "reasonStats a"] d by (simp add: checkpointData_def)
  have "restore_reasonStats (reasonStats a) = reasonStats a"
    unfolding restore_reasonStats_def
    using restore_reasonStats_aux [OF d i, of "[]" "reasonStats a"] by simp
  then show ?thesis
    using assms ser by (simp add: restore_def checkpointData_def normal_def new_Set_distinct)
qed

lemma restore_reasonStats_normal:
  "distinct (map fst m) \<and> (\<forall>(r, s) \<in> set m. distinct (itemIds s)) \<Longrightarrow>
   distinct (map fst (foldl (\<lambda>m reason.
                  case map_of obj reason of
                    None \<Rightarrow> m
                  | Some stat \<Rightarrow>
                      AList.update reason \<lparr>count = count stat, itemIds = new_Set (itemIds stat)\<rparr> m)
           m ks)) \<and>
   (\<forall>(r, s) \<in> set (foldl (\<lambda>m reason.
                  case map_of obj reason of
                    None \<Rightarrow> m
                  | Some stat \<Rightarrow>
                      AList.update reason \<lparr>count = count stat, itemIds = new_Set (itemIds stat)\<rparr> m)
           m ks). distinct (itemIds s))"
proof (induction ks arbitrary: m)
  case Nil
  then show ?case by simp
next
  case (Cons k ks)
  show ?case
  proof (cases "map_of obj k")
    case None
    then show ?thesis using Cons by simp
  next
    case (Some stat)
    let ?v = "\<lparr>count = count stat, itemIds = new_Set (itemIds stat)\<rparr>"
    have "distinct (map fst (AList.update k ?v m))" using Cons.prems by (simp add: distinct_update)
    moreover have "\<forall>(r, s) \<in> set (AList.update k ?v m). distinct (itemIds s)"
      using Cons.prems set_update_subset [of k ?v m] by auto
    ultimately show ?thesis using Cons.IH [of "AList.update k ?v m"] Some by simp
  qed
qed

lemma normal_restore: "normal (restore checkpoint)"
proof (cases checkpoint)
  case None
  then show ?thesis by (simp add: restore_def normal_def)
next
  case (Some cp)
  show ?thesis
    using restore_reasonStats_normal [of "[]" "cp_reasonStats cp" "map fst (cp_reasonStats cp)"] Some
    by (simp add: restore_def normal_def restore_reasonStats_def)
qed

lemma normal_classify_row: "normal a \<Longrightarrow> normal (classify_row dm rm iym a row)"
proof -
  assume n: "normal a"
  let ?stat = "case map_of (reasonStats a) MISMATCH_REASON of
                 Some st \<Rightarrow> st | None \<Rightarrow> \<lparr>count = 0, itemIds = []\<rparr>"
  have "distinct (itemIds ?stat)"
    using n by (auto simp: normal_def split: option.splits dest!: map_of_SomeD)
  then have "\<forall>(r, s) \<in> set (AList.update MISMATCH_REASON
                \<lparr>count = count ?stat + 1, itemIds = set_add (row_itemId row) (itemIds ?stat)\<rparr>
                (reasonStats a)). distinct (itemIds s)"
    using n set_update_subset [of MISMATCH_REASON _ "reasonStats a"]
    by (fastforce simp: normal_def)
  then show ?thesis
    using n by (auto simp: classify_row_def Let_def normal_def distinct_update split: option.splits)
qed

lemma normal_foldl_classify: "normal a \<Longrightarrow> normal (foldl (classify refs) a rows)"
  by (induction rows arbitrary: a) (simp_all add: classify_def normal_classify_row)

lemma matches_documentItemQuery:
  "matches (documentItemQuery l s e) d \<longleftrightarrow>
     (case l of None \<Rightarrow> True | Some k \<Rightarrow> k \<noteq> [] \<longrightarrow> k < di_id d) \<and>
     (case s of None \<Rightarrow> True
      | Some lo \<Rightarrow> (case di_addedOn d of None \<Rightarrow> False | Some t \<Rightarrow> lo \<le> t)) \<and>
     (case e of None \<Rightarrow> True
      | Some hi \<Rightarrow> (case di_addedOn d of None \<Rightarrow> False | Some t \<Rightarrow> t < hi))"
  by (auto simp: documentItemQuery_def matches_def str_or_def Let_def split: option.splits)

lemma sorted_le_last:
  "sorted (map f xs) \<Longrightarrow> x \<in> set xs \<Longrightarrow> f x \<le> f (last xs)"
proof (induction xs)
  case Nil
  then show ?case by simp
next
  case (Cons y ys)
  then show ?case by (cases "ys = []") auto
qed

lemma filter_after_last:
  fixes f :: "'a \<Rightarrow> 'b::linorder"
  assumes "sorted (map f (pre @ suf))" "distinct (map f (pre @ suf))" "pre \<noteq> []"
  shows "filter (\<lambda>d. f (last pre) < f d) (pre @ suf) = suf"
proof -
  have sp: "sorted (map f pre)" and cross: "\<forall>x \<in> set pre. \<forall>y \<in> set suf. f x \<le> f y"
    using assms(1) by (auto simp: sorted_append)
  have lp: "last pre \<in> set pre" using assms(3) by simp
  have "\<not> f (last pre) < f x" if "x \<in> set pre" for x
    using sorted_le_last [OF sp that] by simp
  then have a: "filter (\<lambda>d. f (last pre) < f d) pre = []" by (simp add: filter_empty_conv)
  have "f (last pre) < f y" if "y \<in> set suf" for y
  proof -
    have "f (last pre) \<le> f y" using cross lp that by blast
    moreover have "f (last pre) \<noteq> f y" using assms(2) lp that by auto
    ultimately show ?thesis by simp
  qed
  then have b: "filter (\<lambda>d. f (last pre) < f d) suf = suf" by (simp add: filter_id_conv)
  show ?thesis using a b by simp
qed

lemma distinct_map_sort_key:
  "distinct (map f xs) \<Longrightarrow> distinct (map f (sort_key g xs))"
  by (simp add: distinct_map)

lemma resume_cursor:
  assumes dist: "distinct (map di_id coll)"
    and rows: "find_documentItems (documentItemQuery l0 s e) coll = pre @ suf"
    and big: "suf \<noteq> [] \<longrightarrow> BATCH_SIZE \<le> length pre"
  shows "find_documentItems
           (documentItemQuery
              (if pre = [] then l0 else Some (row_documentItemId (documentItemRow_of (last pre))))
              s e) coll = suf"
proof (cases "pre = []")
  case True
  then show ?thesis using rows by simp
next
  case False
  let ?rows = "pre @ suf"
  let ?m0 = "matches (documentItemQuery l0 s e)"
  let ?k = "row_documentItemId (documentItemRow_of (last pre))"
  let ?m1 = "matches (documentItemQuery (Some ?k) s e)"
  have rows': "sort_key di_id (filter ?m0 coll) = ?rows"
    using rows by (simp add: find_documentItems_def)
  have srt: "sorted (map di_id ?rows)"
    using sorted_sort_key [of di_id "filter ?m0 coll"] rows' by simp
  have dst: "distinct (map di_id ?rows)"
    using distinct_map_sort_key [of di_id "filter ?m0 coll" di_id] dist rows'
    by (simp add: distinct_map_filter)
  have "set (filter ?m0 coll) = set ?rows" by (metis set_sort rows')
  moreover have "last pre \<in> set ?rows" using False by simp
  ultimately have lp: "last pre \<in> set (filter ?m0 coll)" by blast
  then have m0_last: "?m0 (last pre)" by simp
  have k_nonempty: "?k \<noteq> []" by (simp add: documentItemRow_of_def str_or_def)
  show ?thesis
  proof (cases "di_id (last pre) = []")
    case nonempty: False
    then have k: "?k = di_id (last pre)" by (simp add: documentItemRow_of_def str_or_def)
    have m1: "?m1 d \<longleftrightarrow> di_id (last pre) < di_id d \<and> ?m0 d" for d
      using m0_last nonempty unfolding matches_documentItemQuery k
      by (auto split: option.splits)
    let ?P = "\<lambda>d. di_id (last pre) < di_id d"
    have feq: "filter ?m1 coll = filter ?P (filter ?m0 coll)"
      by (auto simp: m1 intro!: filter_cong)
    have "find_documentItems (documentItemQuery (Some ?k) s e) coll =
          sort_key di_id (filter ?P (filter ?m0 coll))"
      by (simp only: find_documentItems_def feq)
    also have "\<dots> = filter ?P (sort_key di_id (filter ?m0 coll))"
      by (rule filter_sort [symmetric])
    also have "\<dots> = filter ?P ?rows" by (simp only: rows')
    also have "\<dots> = suf" using filter_after_last [OF srt dst False] .
    finally show ?thesis using False by simp
  next
    case empty: True
    have dpre: "distinct (map di_id pre)" using dst by simp
    have only: "x = last pre" if "x \<in> set pre" for x
    proof -
      have "di_id x \<le> di_id (last pre)"
        using sorted_le_last [of di_id pre x] srt that by (simp add: sorted_append)
      then have "di_id x = di_id (last pre)" using empty by simp
      moreover have "inj_on di_id (set pre)" using dpre by (simp add: distinct_map)
      ultimately show ?thesis using that False by (auto dest!: inj_onD)
    qed
    have "butlast pre = []"
    proof (rule ccontr)
      assume "butlast pre \<noteq> []"
      then obtain x where x: "x \<in> set (butlast pre)" by (cases "butlast pre") auto
      then have "x = last pre" using only in_set_butlastD by metis
      moreover have "distinct (butlast pre @ [last pre])" using dpre False by (simp add: distinct_map)
      ultimately show False using x by simp
    qed
    then have one: "pre = [last pre]" using False by (metis append_butlast_last_id append_Nil)
    then have "length pre = 1" by (metis length_Cons list.size(3) One_nat_def)
    then have suf: "suf = []" using big by (auto simp: BATCH_SIZE_def)
    have rows_set: "set (filter ?m0 coll) = {last pre}"
      using set_sort [of di_id "filter ?m0 coll"] one suf unfolding rows' by (metis append_Nil2 list.set(1) list.simps(15))
    have "\<not> ?m1 d" if "d \<in> set coll" for d
    proof
      assume m1: "?m1 d"
      have "?m0 d"
        using m1 m0_last empty unfolding matches_documentItemQuery by (auto split: option.splits)
      then have "d = last pre" using rows_set that by auto
      then show False using m1 empty k_nonempty unfolding matches_documentItemQuery by simp
    qed
    then have "filter ?m1 coll = []" by (simp add: filter_empty_conv)
    then show ?thesis using False suf by (simp add: find_documentItems_def)
  qed
qed

lemma initial_scan_fields [simp]:
  "agg (initial_scan file c) = restore c"
  "scannedDocumentItems (initial_scan file c) = 0"
  "batchIndex (initial_scan file c) = 0"
  "lastProcessedId (initial_scan file c) = lastDocumentItemId_of c"
  "batchRows (initial_scan file c) = []"
  "batchItemIds (initial_scan file c) = []"
  "calls (initial_scan file c) = []"
  "saved (initial_scan file c) = []"
  "checkpointFile (initial_scan file c) = file"
  by (simp_all add: initial_scan_def)

lemma buffered_initial [simp]: "buffered (initial_scan file c)"
  by (simp add: buffered_def)

lemma pending_initial [simp]: "pending refs (initial_scan file c) = restore c"
  by (simp add: pending_def)

lemma write_checkpoint_fields [simp]:
  "agg (write_checkpoint cp st) = agg st"
  "scannedDocumentItems (write_checkpoint cp st) = scannedDocumentItems st"
  "batchIndex (write_checkpoint cp st) = batchIndex st"
  "lastProcessedId (write_checkpoint cp st) = lastProcessedId st"
  "batchRows (write_checkpoint cp st) = batchRows st"
  "batchItemIds (write_checkpoint cp st) = batchItemIds st"
  "calls (write_checkpoint cp st) = calls st"
  "saved (write_checkpoint cp st) = saved st @ [cp]"
  "checkpointFile (write_checkpoint cp st) = Some (Json cp)"
  by (simp_all add: write_checkpoint_def saveCheckpoint_def)

lemma stop_requested_write_checkpoint [simp]:
  "stop_requested maxB (write_checkpoint cp st) = stop_requested maxB st"
  by (cases maxB) (simp_all add: stop_requested_def)

lemma stop_requested_processBatch_Nil [simp]:
  "stop_requested maxB (processBatch refs [] ids st) = stop_requested maxB st"
  by (cases maxB) (simp_all add: stop_requested_def)

lemma scan_run_result:
  "\<exists>pre suf.
     documentItemCursor args db (lastDocumentItemId_of c) = pre @ suf \<and>
     agg (scan_run args db fl c) =
       foldl (classify (load_refs db)) (restore c) (map documentItemRow_of pre) \<and>
     lastProcessedId (scan_run args db fl c) =
       (if pre = [] then lastDocumentItemId_of c
        else Some (row_documentItemId (documentItemRow_of (last pre)))) \<and>
     scannedDocumentItems (scan_run args db fl c) = length pre \<and>
     (suf \<noteq> [] \<longrightarrow> pre \<noteq> [] \<and> BATCH_SIZE \<le> length pre \<and>
                    stop_requested (maxBatches args) (scan_run args db fl c)) \<and>
     (maxBatches args = None \<longrightarrow> suf = [])"
proof -
  let ?refs = "load_refs db"
  let ?cursor = "documentItemCursor args db (lastDocumentItemId_of c)"
  let ?st0 = "initial_scan fl c"
  let ?st1 = "scan ?refs (maxBatches args) ?st0 ?cursor"
  let ?st2 = "processBatch ?refs (batchRows ?st1) (batchItemIds ?st1) ?st1"
  have run: "scan_run args db fl c =
             write_checkpoint (checkpointData (lastProcessedId ?st2) (agg ?st2)) ?st2"
    by (simp add: scan_run_def Let_def)
  obtain pre suf where split: "?cursor = pre @ suf"
    and c: "consumed ?refs (maxBatches args) ?st0 ?st1 pre suf"
    using scan_prefix [of ?st0 ?cursor ?refs "maxBatches args"] by auto
  have b: "buffered ?st1" using c by (simp add: consumed_def)
  have a2: "agg ?st2 = pending ?refs ?st1"
    using b by (simp add: agg_processBatch buffered_def pending_def)
  have stop: "stop_requested (maxBatches args) ?st2" if "suf \<noteq> []"
  proof -
    have e: "batchRows ?st1 = []" and r: "stop_requested (maxBatches args) ?st1"
      using c that by (simp_all add: consumed_def)
    show ?thesis unfolding e using r by simp
  qed
  have none: "maxBatches args = None \<longrightarrow> suf = []"
    using c by (auto simp: consumed_def stop_requested_def)
  have f1: "agg (write_checkpoint (checkpointData (lastProcessedId ?st2) (agg ?st2)) ?st2) =
       foldl (classify ?refs) (restore c) (map documentItemRow_of pre)"
    using a2 c by (simp add: consumed_def)
  have f2: "lastProcessedId (write_checkpoint (checkpointData (lastProcessedId ?st2) (agg ?st2)) ?st2) =
       (if pre = [] then lastDocumentItemId_of c
        else Some (row_documentItemId (documentItemRow_of (last pre))))"
    using c by (simp add: consumed_def)
  have f3: "scannedDocumentItems (write_checkpoint (checkpointData (lastProcessedId ?st2) (agg ?st2)) ?st2) = length pre"
    using c by (simp add: consumed_def)
  have f4: "suf \<noteq> [] \<longrightarrow> pre \<noteq> [] \<and> BATCH_SIZE \<le> length pre \<and>
       stop_requested (maxBatches args) (write_checkpoint (checkpointData (lastProcessedId ?st2) (agg ?st2)) ?st2)"
  proof
    assume s: "suf \<noteq> []"
    have "pre \<noteq> []" "BATCH_SIZE \<le> length pre" using c s by (simp_all add: consumed_def)
    moreover have "stop_requested (maxBatches args) (write_checkpoint (checkpointData (lastProcessedId ?st2) (agg ?st2)) ?st2)"
      using stop [OF s] by simp
    ultimately show "pre \<noteq> [] \<and> BATCH_SIZE \<le> length pre \<and>
       stop_requested (maxBatches args) (write_checkpoint (checkpointData (lastProcessedId ?st2) (agg ?st2)) ?st2)"
      by blast
  qed
  show ?thesis
    unfolding run
    by (rule exI [of _ pre], rule exI [of _ suf]) (intro conjI split f1 f2 f3 f4 none)
qed

lemma scan_run_saved:
  assumes "cp \<in> set (saved (scan_run args db fl c))"
  shows "\<exists>pre suf.
     documentItemCursor args db (lastDocumentItemId_of c) = pre @ suf \<and>
     (suf \<noteq> [] \<longrightarrow> BATCH_SIZE \<le> length pre) \<and>
     cp = checkpointData
            (if pre = [] then lastDocumentItemId_of c
             else Some (row_documentItemId (documentItemRow_of (last pre))))
            (foldl (classify (load_refs db)) (restore c) (map documentItemRow_of pre))"
proof -
  let ?refs = "load_refs db"
  let ?cursor = "documentItemCursor args db (lastDocumentItemId_of c)"
  let ?st0 = "initial_scan fl c"
  let ?st1 = "scan ?refs (maxBatches args) ?st0 ?cursor"
  let ?st2 = "processBatch ?refs (batchRows ?st1) (batchItemIds ?st1) ?st1"
  let ?final = "checkpointData (lastProcessedId (scan_run args db fl c)) (agg (scan_run args db fl c))"
  have run: "scan_run args db fl c =
             write_checkpoint (checkpointData (lastProcessedId ?st2) (agg ?st2)) ?st2"
    by (simp add: scan_run_def Let_def)
  obtain new where new: "saved ?st1 = new"
    "\<forall>cp \<in> set new. snapshot ?refs (restore c) 0 ?cursor cp"
    using scan_saved [of ?st0 ?refs "maxBatches args" ?cursor] by auto
  have "saved (scan_run args db fl c) = new @ [?final]"
    unfolding run using new(1) by simp
  then consider (mid) "cp \<in> set new" | (final) "cp = ?final"
    using assms by auto
  then show ?thesis
  proof cases
    case mid
    then have "snapshot ?refs (restore c) 0 ?cursor cp" using new(2) by blast
    then show ?thesis unfolding snapshot_def by auto
  next
    case final
    obtain pre suf where *: "?cursor = pre @ suf"
      "agg (scan_run args db fl c) =
         foldl (classify ?refs) (restore c) (map documentItemRow_of pre)"
      "lastProcessedId (scan_run args db fl c) =
         (if pre = [] then lastDocumentItemId_of c
          else Some (row_documentItemId (documentItemRow_of (last pre))))"
      "suf \<noteq> [] \<longrightarrow> pre \<noteq> [] \<and> BATCH_SIZE \<le> length pre \<and>
                    stop_requested (maxBatches args) (scan_run args db fl c)"
      using scan_run_result [of args db c fl] by blast
    show ?thesis
      apply (rule exI [of _ pre], rule exI [of _ suf])
      using * final by simp
  qed
qed

lemma resume_agg:
  assumes dist: "distinct (map di_id (DocumentItems db))"
    and cp: "cp \<in> set (saved (scan_run args1 db file1 c0))"
    and dates: "startDate args1 = startDate args" "endDate args1 = endDate args"
    and full: "maxBatches args = None"
  shows "agg (scan_run args db file2 (Some cp)) = agg (scan_run args db file0 c0)"
proof -
  let ?refs = "load_refs db"
  let ?start = "lastDocumentItemId_of c0"
  have cur: "documentItemCursor args1 db ?start = documentItemCursor args db ?start"
    using dates by (simp add: documentItemCursor_def)
  have "\<exists>pre suf. documentItemCursor args db ?start = pre @ suf \<and>
     (suf \<noteq> [] \<longrightarrow> BATCH_SIZE \<le> length pre) \<and>
     cp = checkpointData
            (if pre = [] then ?start
             else Some (row_documentItemId (documentItemRow_of (last pre))))
            (foldl (classify ?refs) (restore c0) (map documentItemRow_of pre))"
    using scan_run_saved [OF cp] by (simp only: cur)
  then obtain pre where "\<exists>suf. documentItemCursor args db ?start = pre @ suf \<and>
     (suf \<noteq> [] \<longrightarrow> BATCH_SIZE \<le> length pre) \<and>
     cp = checkpointData
            (if pre = [] then ?start
             else Some (row_documentItemId (documentItemRow_of (last pre))))
            (foldl (classify ?refs) (restore c0) (map documentItemRow_of pre))" ..
  then obtain suf where all: "documentItemCursor args db ?start = pre @ suf \<and>
     (suf \<noteq> [] \<longrightarrow> BATCH_SIZE \<le> length pre) \<and>
     cp = checkpointData
            (if pre = [] then ?start
             else Some (row_documentItemId (documentItemRow_of (last pre))))
            (foldl (classify ?refs) (restore c0) (map documentItemRow_of pre))" ..
  have split: "documentItemCursor args db ?start = pre @ suf"
    and big: "suf \<noteq> [] \<longrightarrow> BATCH_SIZE \<le> length pre"
    and cp_eq: "cp = checkpointData
            (if pre = [] then ?start
             else Some (row_documentItemId (documentItemRow_of (last pre))))
            (foldl (classify ?refs) (restore c0) (map documentItemRow_of pre))"
    using all by (rule conjunct1, rule conjunct2 [THEN conjunct1], rule conjunct2 [THEN conjunct2])
  let ?a = "foldl (classify ?refs) (restore c0) (map documentItemRow_of pre)"
  let ?next = "if pre = [] then ?start else Some (row_documentItemId (documentItemRow_of (last pre)))"
  have na: "normal ?a" by (intro normal_foldl_classify normal_restore)
  have restore_cp: "restore (Some cp) = ?a"
    unfolding cp_eq using na by (rule restore_checkpointData)
  have last_cp: "lastDocumentItemId_of (Some cp) = ?next"
    unfolding cp_eq by (simp add: lastDocumentItemId_of_def checkpointData_def)
  have "find_documentItems (documentItemQuery ?next (startDate args) (endDate args)) (DocumentItems db) = suf"
    by (rule resume_cursor [OF dist _ big]) (use split in \<open>simp only: documentItemCursor_def\<close>)
  then have resumed_cursor: "documentItemCursor args db (lastDocumentItemId_of (Some cp)) = suf"
    unfolding last_cp documentItemCursor_def .
  obtain pre0 suf0 where full_run:
    "documentItemCursor args db ?start = pre0 @ suf0"
    "agg (scan_run args db file0 c0) =
       foldl (classify ?refs) (restore c0) (map documentItemRow_of pre0)"
    "maxBatches args = None \<longrightarrow> suf0 = []"
    using scan_run_result [of args db c0 file0] by (elim exE conjE) (rule that)
  have "suf0 = []" using full_run(3) full by blast
  then have "pre0 = pre @ suf" using full_run(1) split by simp
  then have full_agg: "agg (scan_run args db file0 c0) =
       foldl (classify ?refs) ?a (map documentItemRow_of suf)"
    using full_run(2) by simp
  obtain pre1 suf1 where res_run:
    "documentItemCursor args db (lastDocumentItemId_of (Some cp)) = pre1 @ suf1"
    "agg (scan_run args db file2 (Some cp)) =
       foldl (classify ?refs) (restore (Some cp)) (map documentItemRow_of pre1)"
    "maxBatches args = None \<longrightarrow> suf1 = []"
    using scan_run_result [of args db "Some cp" file2] by (elim exE conjE) (rule that)
  have "suf1 = []" using res_run(3) full by blast
  then have "pre1 = suf" using res_run(1) resumed_cursor by simp
  then have "agg (scan_run args db file2 (Some cp)) =
       foldl (classify ?refs) ?a (map documentItemRow_of suf)"
    using res_run(2) restore_cp by simp
  then show ?thesis using full_agg by simp
qed

lemma samples_classify_row:
  "length (samples a) \<le> SAMPLE_LIMIT \<Longrightarrow>
   length (samples (classify_row dm rm iym a row)) \<le> SAMPLE_LIMIT"
  by (simp add: classify_row_def Let_def split: option.splits)

lemma prefix_samples_classify_row:
  "prefix (samples a) (samples (classify_row dm rm iym a row))"
  by (simp add: classify_row_def Let_def split: option.splits)

lemma samples_foldl_classify_row:
  "length (samples a) \<le> SAMPLE_LIMIT \<Longrightarrow>
   length (samples (foldl (classify_row dm rm iym) a rows)) \<le> SAMPLE_LIMIT"
  by (induction rows arbitrary: a) (simp_all add: samples_classify_row)

lemma prefix_samples_foldl_classify_row:
  "prefix (samples a) (samples (foldl (classify_row dm rm iym) a rows))"
proof (induction rows arbitrary: a)
  case Nil
  then show ?case by simp
next
  case (Cons r rows)
  show ?case
    using prefix_samples_classify_row [of a dm rm iym r]
      Cons [of "classify_row dm rm iym a r"] prefix_order.trans
    by fastforce
qed

lemma samples_foldl_classify:
  "length (samples a) \<le> SAMPLE_LIMIT \<Longrightarrow>
   length (samples (foldl (classify refs) a rows)) \<le> SAMPLE_LIMIT"
  by (induction rows arbitrary: a) (simp_all add: classify_def samples_classify_row)

lemma prefix_samples_foldl_classify:
  "prefix (samples a) (samples (foldl (classify refs) a rows))"
proof (induction rows arbitrary: a)
  case Nil
  then show ?case by simp
next
  case (Cons r rows)
  have "prefix (samples a) (samples (classify refs a r))"
    by (simp add: classify_def prefix_samples_classify_row)
  then show ?case
    using Cons [of "classify refs a r"] prefix_order.trans by fastforce
qed

lemma sum_count_update:
  "sum_list (map (\<lambda>(reason, stat). count stat) (AList.update k v al)) + 
     (case map_of al k of None \<Rightarrow> 0 | Some old \<Rightarrow> count old) =
   sum_list (map (\<lambda>(reason, stat). count stat) al) + count v"
  by (induction al) (auto split: option.splits)

lemma union_itemIds_update:
  "(case map_of al k of None \<Rightarrow> True | Some old \<Rightarrow> set (itemIds old) \<subseteq> set (itemIds v)) \<Longrightarrow>
   (\<Union>(reason, stat) \<in> set (AList.update k v al). set (itemIds stat)) =
   set (itemIds v) \<union> (\<Union>(reason, stat) \<in> set al. set (itemIds stat))"
proof (induction al)
  case Nil
  then show ?case by simp
next
  case (Cons p al)
  obtain k' v' where p: "p = (k', v')" by (cases p)
  show ?case
  proof (cases "k' = k")
    case True
    then show ?thesis using Cons.prems p by auto
  next
    case False
    then show ?thesis using Cons p by auto
  qed
qed

lemma consistent_classify_row:
  assumes "consistent a"
  shows "consistent (classify_row dm rm iym a row)"
proof -
  let ?al = "reasonStats a"
  let ?stat = "case map_of ?al MISMATCH_REASON of
                 Some st \<Rightarrow> st | None \<Rightarrow> \<lparr>count = 0, itemIds = []\<rparr>"
  let ?stat' = "\<lparr>count = count ?stat + 1, itemIds = set_add (row_itemId row) (itemIds ?stat)\<rparr>"
  let ?al' = "AList.update MISMATCH_REASON ?stat' ?al"
  have c: "sum_list (map (\<lambda>(reason, stat). count stat) ?al') =
           sum_list (map (\<lambda>(reason, stat). count stat) ?al) + 1"
    using sum_count_update [of MISMATCH_REASON ?stat' ?al] by (auto split: option.splits)
  have sub: "(\<Union>(reason, stat) \<in> set ?al. set (itemIds stat)) \<supseteq> set (itemIds ?stat)"
    by (auto split: option.splits dest!: map_of_SomeD)
  have "(\<Union>(reason, stat) \<in> set ?al'. set (itemIds stat)) =
        set (itemIds ?stat') \<union> (\<Union>(reason, stat) \<in> set ?al. set (itemIds stat))"
    by (rule union_itemIds_update) (auto split: option.splits)
  then have u: "(\<Union>(reason, stat) \<in> set ?al'. set (itemIds stat)) =
        insert (row_itemId row) (\<Union>(reason, stat) \<in> set ?al. set (itemIds stat))"
    using sub by auto
  show ?thesis
    using assms c u by (simp add: classify_row_def Let_def consistent_def split: option.splits)
qed

lemma consistent_foldl_classify_row:
  "consistent a \<Longrightarrow> consistent (foldl (classify_row dm rm iym) a rows)"
  by (induction rows arbitrary: a) (simp_all add: consistent_classify_row)

lemma consistent_foldl_classify:
  "consistent a \<Longrightarrow> consistent (foldl (classify refs) a rows)"
  by (induction rows arbitrary: a) (simp_all add: classify_def consistent_classify_row)

lemma cp_fields_checkpointData [simp]:
  "cp_samples (checkpointData l a) = samples a"
  "cp_documentItemCount (checkpointData l a) = documentItemCount a"
  "cp_allItemIds (checkpointData l a) = allItemIds a"
  "cp_lastDocumentItemId (checkpointData l a) = l"
  by (simp_all add: checkpointData_def)

lemma cp_reasonStats_checkpointData:
  "normal a \<Longrightarrow> cp_reasonStats (checkpointData l a) = reasonStats a"
  using serialize_reasonStats [of "[]" "reasonStats a"]
  by (simp add: checkpointData_def normal_def)

lemma consistent_restore_None: "consistent (restore None)"
  by (simp add: consistent_def restore_def)

lemma length_set_add_le: "length (set_add x xs) \<le> length xs + 1"
  by (simp add: set_add_def)

lemma scan_calls:
  "buffered st \<Longrightarrow> length (batchItemIds st) < BATCH_SIZE \<Longrightarrow>
   \<exists>new. calls (scan refs maxB st cursor) = calls st @ new \<and>
     (\<forall>c \<in> set new. full_batch c) \<and>
     length (batchItemIds (scan refs maxB st cursor)) < BATCH_SIZE"
proof (induction cursor arbitrary: st)
  case Nil
  then show ?case by simp
next
  case (Cons row cursor)
  let ?st1 = "absorb row st"
  let ?st2 = "flush refs ?st1"
  have b1: "buffered ?st1" using Cons.prems(1) by (rule buffered_absorb)
  show ?case
  proof (cases "length (batchItemIds ?st1) \<ge> BATCH_SIZE")
    case False
    then have eq: "scan refs maxB st (row # cursor) = scan refs maxB ?st1 cursor"
      by (simp add: Let_def)
    show ?thesis unfolding eq using Cons.IH [OF b1] False by simp
  next
    case True
    have "length (batchItemIds ?st1) \<le> length (batchItemIds st) + 1"
      using length_set_add_le [of "row_itemId (documentItemRow_of row)" "batchItemIds st"]
      by (simp add: absorb_def Let_def)
    then have len: "length (batchItemIds ?st1) = BATCH_SIZE" using True Cons.prems(2) by simp
    have ids: "batchItemIds ?st1 = new_Set (map row_itemId (batchRows ?st1))"
      using b1 by (simp add: buffered_def)
    have before: "new_Set (map row_itemId (butlast (batchRows ?st1))) = batchItemIds st"
      using Cons.prems(1) by (simp add: buffered_def)
    have fb: "full_batch (batchRows ?st1, batchItemIds ?st1)"
      unfolding full_batch_def using len ids before Cons.prems(2) by simp
    have zero: "length (batchItemIds ?st2) < BATCH_SIZE" by (simp add: BATCH_SIZE_def)
    show ?thesis
    proof (cases "stop_requested maxB ?st2")
      case stop: True
      then have eq: "scan refs maxB st (row # cursor) = ?st2" using True by (simp add: Let_def)
      show ?thesis unfolding eq using fb zero by simp
    next
      case go: False
      then have eq: "scan refs maxB st (row # cursor) = scan refs maxB ?st2 cursor"
        using True by (simp add: Let_def)
      obtain new where *: "calls (scan refs maxB ?st2 cursor) = calls ?st2 @ new"
        "\<forall>c \<in> set new. full_batch c"
        "length (batchItemIds (scan refs maxB ?st2 cursor)) < BATCH_SIZE"
        using Cons.IH [of ?st2] zero by auto
      show ?thesis
        unfolding eq
        apply (rule exI [of _ "(batchRows ?st1, batchItemIds ?st1) # new"])
        using * fb by simp
    qed
  qed
qed

lemma scan_run_calls:
  "\<exists>flushed drain.
     calls (scan_run args db fl c) = flushed @ [drain] \<and>
     (\<forall>call \<in> set flushed. full_batch call) \<and>
     snd drain = new_Set (map row_itemId (fst drain)) \<and>
     length (snd drain) < BATCH_SIZE"
proof -
  let ?refs = "load_refs db"
  let ?cursor = "documentItemCursor args db (lastDocumentItemId_of c)"
  let ?st0 = "initial_scan fl c"
  let ?st1 = "scan ?refs (maxBatches args) ?st0 ?cursor"
  let ?st2 = "processBatch ?refs (batchRows ?st1) (batchItemIds ?st1) ?st1"
  have run: "scan_run args db fl c =
             write_checkpoint (checkpointData (lastProcessedId ?st2) (agg ?st2)) ?st2"
    by (simp add: scan_run_def Let_def)
  have z: "length (batchItemIds ?st0) < BATCH_SIZE" by (simp add: BATCH_SIZE_def)
  obtain new where new: "calls ?st1 = new" "\<forall>c \<in> set new. full_batch c"
    "length (batchItemIds ?st1) < BATCH_SIZE"
    using scan_calls [of ?st0 ?refs "maxBatches args" ?cursor] z by auto
  obtain pre suf where "consumed ?refs (maxBatches args) ?st0 ?st1 pre suf"
    using scan_prefix [of ?st0 ?cursor ?refs "maxBatches args"] by auto
  then have b: "buffered ?st1" by (simp add: consumed_def)
  show ?thesis
    unfolding run
    apply (rule exI [of _ new], rule exI [of _ "(batchRows ?st1, batchItemIds ?st1)"])
    using new b by (simp add: buffered_def)
qed

lemma scan_run_trace:
  "\<exists>pre suf.
     documentItemCursor args db (lastDocumentItemId_of c) = pre @ suf \<and>
     scannedDocumentItems (scan_run args db fl c) = length pre \<and>
     (suf \<noteq> [] \<longrightarrow> stop_requested (maxBatches args) (scan_run args db fl c) \<and>
                    last (calls (scan_run args db fl c)) = ([], [])) \<and>
     (maxBatches args = None \<longrightarrow> suf = []) \<and>
     concat (map fst (calls (scan_run args db fl c))) = map documentItemRow_of pre \<and>
     agg (scan_run args db fl c) =
       foldl (classify (load_refs db)) (restore c) (map documentItemRow_of pre) \<and>
     lastProcessedId (scan_run args db fl c) =
       (if pre = [] then lastDocumentItemId_of c
        else Some (row_documentItemId (documentItemRow_of (last pre)))) \<and>
     saved (scan_run args db fl c) \<noteq> [] \<and>
     last (saved (scan_run args db fl c)) =
       checkpointData (lastProcessedId (scan_run args db fl c)) (agg (scan_run args db fl c)) \<and>
     checkpointFile (scan_run args db fl c) = Some (Json (last (saved (scan_run args db fl c))))"
proof -
  let ?refs = "load_refs db"
  let ?cursor = "documentItemCursor args db (lastDocumentItemId_of c)"
  let ?st0 = "initial_scan fl c"
  let ?st1 = "scan ?refs (maxBatches args) ?st0 ?cursor"
  let ?st2 = "processBatch ?refs (batchRows ?st1) (batchItemIds ?st1) ?st1"
  let ?run = "write_checkpoint (checkpointData (lastProcessedId ?st2) (agg ?st2)) ?st2"
  have run: "scan_run args db fl c = ?run"
    by (simp add: scan_run_def Let_def)
  obtain pre suf where split: "?cursor = pre @ suf"
    and c: "consumed ?refs (maxBatches args) ?st0 ?st1 pre suf"
    using scan_prefix [of ?st0 ?cursor ?refs "maxBatches args"] by auto
  have b: "buffered ?st1" using c by (simp add: consumed_def)
  have a2: "agg ?st2 = pending ?refs ?st1"
    using b by (simp add: agg_processBatch buffered_def pending_def)
  have f1: "scannedDocumentItems ?run = length pre" using c by (simp add: consumed_def)
  have f2: "suf \<noteq> [] \<longrightarrow> stop_requested (maxBatches args) ?run \<and> last (calls ?run) = ([], [])"
  proof
    assume s: "suf \<noteq> []"
    have e: "batchRows ?st1 = []" and r: "stop_requested (maxBatches args) ?st1"
      using c s by (simp_all add: consumed_def)
    have i: "batchItemIds ?st1 = []" using b e by (simp add: buffered_def)
    have "stop_requested (maxBatches args) ?st2" unfolding e using r by simp
    then show "stop_requested (maxBatches args) ?run \<and> last (calls ?run) = ([], [])"
      using e i by simp
  qed
  have f3: "maxBatches args = None \<longrightarrow> suf = []"
    using c by (auto simp: consumed_def stop_requested_def)
  have f4: "concat (map fst (calls ?run)) = map documentItemRow_of pre"
    using c by (simp add: consumed_def)
  have f5: "agg ?run = foldl (classify ?refs) (restore c) (map documentItemRow_of pre)"
    using a2 c by (simp add: consumed_def)
  have f6: "lastProcessedId ?run =
       (if pre = [] then lastDocumentItemId_of c
        else Some (row_documentItemId (documentItemRow_of (last pre))))"
    using c by (simp add: consumed_def)
  have f7: "saved ?run \<noteq> []" by simp
  have f8: "last (saved ?run) = checkpointData (lastProcessedId ?run) (agg ?run)" by simp
  have f9: "checkpointFile ?run = Some (Json (last (saved ?run)))" by simp
  show ?thesis
    unfolding run
    by (rule exI [of _ pre], rule exI [of _ suf]) (intro conjI split f1 f2 f3 f4 f5 f6 f7 f8 f9)
qed

lemma in_range_matches:
  "l \<noteq> Some [] \<Longrightarrow> matches (documentItemQuery l s e) d = in_range l s e d"
  unfolding matches_documentItemQuery in_range_def by (cases l) auto

lemma saved_key_nonempty:
  assumes "lastDocumentItemId_of c \<noteq> Some []" "cp \<in> set (saved (scan_run args db fl c))"
  shows "lastDocumentItemId_of (Some cp) \<noteq> Some []"
proof -
  obtain pre where "cp = checkpointData
            (if pre = [] then lastDocumentItemId_of c
             else Some (row_documentItemId (documentItemRow_of (last pre))))
            (foldl (classify (load_refs db)) (restore c) (map documentItemRow_of pre))"
    using scan_run_saved [OF assms(2)] by (elim exE conjE) (rule that)
  then show ?thesis
    using assms(1) by (simp add: lastDocumentItemId_of_def documentItemRow_of_def)
qed

lemma finalize_lines_time:
  "finalize_lines now' a = (finalize_lines now a)[2 := HDR_QUERY_TIME @ now']"
  "finalize_lines now a ! 2 = HDR_QUERY_TIME @ now"
  "2 < length (finalize_lines now a)"
  by (simp_all add: finalize_lines_def report_head_def)

lemma saved_as_restored:
  assumes "cp \<in> set (saved (scan_run args db fl c))"
  shows "\<exists>l rs. cp = checkpointData l (foldl (classify (load_refs db)) (restore c) rs) \<and>
           restore (Some cp) = foldl (classify (load_refs db)) (restore c) rs"
proof -
  obtain l rs where cp_eq:
    "cp = checkpointData l (foldl (classify (load_refs db)) (restore c) rs)"
    using scan_run_saved [OF assms] by (elim exE conjE) (rule that)
  have "normal (foldl (classify (load_refs db)) (restore c) rs)"
    by (intro normal_foldl_classify normal_restore)
  then have "restore (Some cp) = foldl (classify (load_refs db)) (restore c) rs"
    unfolding cp_eq by (rule restore_checkpointData)
  then show ?thesis using cp_eq by blast
qed

lemma written_by_scan_cap:
  "written_by_scan c \<Longrightarrow> length (samples (restore c)) \<le> SAMPLE_LIMIT"
proof (induction rule: written_by_scan.induct)
  case fresh
  show ?case by (simp add: restore_def)
next
  case (resumed c cp args db fl)
  obtain rs where "restore (Some cp) = foldl (classify (load_refs db)) (restore c) rs"
    using saved_as_restored [OF resumed.hyps(2)] by (elim exE conjE) (rule that)
  then show ?case using samples_foldl_classify [OF resumed.IH] by simp
qed

lemma written_by_scan_consistent:
  "written_by_scan c \<Longrightarrow> consistent (restore c)"
proof (induction rule: written_by_scan.induct)
  case fresh
  show ?case by (rule consistent_restore_None)
next
  case (resumed c cp args db fl)
  obtain rs where "restore (Some cp) = foldl (classify (load_refs db)) (restore c) rs"
    using saved_as_restored [OF resumed.hyps(2)] by (elim exE conjE) (rule that)
  then show ?case using consistent_foldl_classify [OF resumed.IH] by simp
qed

lemma written_by_scan_key:
  "written_by_scan c \<Longrightarrow> lastDocumentItemId_of c \<noteq> Some []"
proof (induction rule: written_by_scan.induct)
  case fresh
  show ?case by (simp add: lastDocumentItemId_of_def)
next
  case (resumed c cp args db fl)
  show ?case using saved_key_nonempty [OF resumed.IH resumed.hyps(2)] .
qed

lemma batchIndex_flush:
  "batchIndex (flush refs st) = (if batchRows st = [] then batchIndex st else batchIndex st + 1)"
  by (simp add: flush_def Let_def write_checkpoint_def)

lemma batchRows_absorb_nonempty [simp]: "batchRows (absorb row st) \<noteq> []"
  by simp

lemma scan_step_mid_batch:
  "length (batchItemIds (absorb row st)) < BATCH_SIZE \<Longrightarrow>
   scan refs maxB st (row # cursor) = scan refs maxB (absorb row st) cursor"
  by (simp add: Let_def)

lemma scan_step_stop:
  "BATCH_SIZE \<le> length (batchItemIds (absorb row st)) \<Longrightarrow>
   maxB = Some n \<Longrightarrow> n \<le> int (batchIndex (flush refs (absorb row st))) \<Longrightarrow>
   scan refs maxB st (row # cursor) = flush refs (absorb row st)"
  by (simp add: Let_def stop_requested_def)

lemma scan_step_continue:
  "BATCH_SIZE \<le> length (batchItemIds (absorb row st)) \<Longrightarrow>
   maxB = None \<or> (\<exists>n. maxB = Some n \<and> int (batchIndex (flush refs (absorb row st))) < n) \<Longrightarrow>
   scan refs maxB st (row # cursor) = scan refs maxB (flush refs (absorb row st)) cursor"
  by (auto simp: Let_def stop_requested_def)

lemma scan_batchIndex:
  "batchIndex st = 0 \<or> int (batchIndex st) < n \<Longrightarrow>
   (scannedDocumentItems (scan refs (Some n) st cursor) =
      scannedDocumentItems st + length cursor \<and>
    (batchIndex (scan refs (Some n) st cursor) = 0 \<or>
     int (batchIndex (scan refs (Some n) st cursor)) < n)) \<or>
   (batchRows (scan refs (Some n) st cursor) = [] \<and>
    int (batchIndex (scan refs (Some n) st cursor)) = max 1 n)"
proof (induction cursor arbitrary: st)
  case Nil
  then show ?case by simp
next
  case (Cons row cursor)
  let ?st1 = "absorb row st"
  let ?st2 = "flush refs ?st1"
  have p1: "batchIndex ?st1 = 0 \<or> int (batchIndex ?st1) < n" using Cons.prems by simp
  show ?case
  proof (cases "length (batchItemIds ?st1) \<ge> BATCH_SIZE")
    case False
    then have eq: "scan refs (Some n) st (row # cursor) = scan refs (Some n) ?st1 cursor"
      by (simp add: Let_def)
    show ?thesis unfolding eq using Cons.IH [OF p1] by simp
  next
    case True
    have b2: "batchIndex ?st2 = batchIndex st + 1" by (simp add: batchIndex_flush)
    show ?thesis
    proof (cases "n \<le> int (batchIndex ?st2)")
      case stop: True
      have eq: "scan refs (Some n) st (row # cursor) = ?st2"
        using True stop by (intro scan_step_stop) simp_all
      have "int (batchIndex ?st2) = max 1 n" using Cons.prems stop b2 by auto
      then show ?thesis unfolding eq by simp
    next
      case go: False
      have eq: "scan refs (Some n) st (row # cursor) = scan refs (Some n) ?st2 cursor"
        using True go by (intro scan_step_continue) simp_all
      have "batchIndex ?st2 = 0 \<or> int (batchIndex ?st2) < n" using go by simp
      then show ?thesis unfolding eq using Cons.IH [of ?st2] by simp
    qed
  qed
qed

lemma scan_run_batchIndex:
  assumes "maxBatches args = Some n"
  shows "int (batchIndex (scan_run args db fl c)) \<le> max 1 n \<and>
         (scannedDocumentItems (scan_run args db fl c) <
            length (documentItemCursor args db (lastDocumentItemId_of c)) \<longrightarrow>
          int (batchIndex (scan_run args db fl c)) = max 1 n)"
proof -
  let ?refs = "load_refs db"
  let ?cursor = "documentItemCursor args db (lastDocumentItemId_of c)"
  let ?st0 = "initial_scan fl c"
  let ?st1 = "scan ?refs (Some n) ?st0 ?cursor"
  let ?st2 = "processBatch ?refs (batchRows ?st1) (batchItemIds ?st1) ?st1"
  have run: "batchIndex (scan_run args db fl c) = batchIndex ?st2"
    "scannedDocumentItems (scan_run args db fl c) = scannedDocumentItems ?st1"
    using assms by (simp_all add: scan_run_def Let_def)
  have "batchIndex ?st0 = 0 \<or> int (batchIndex ?st0) < n" by simp
  then have "(scannedDocumentItems ?st1 = scannedDocumentItems ?st0 + length ?cursor \<and>
              (batchIndex ?st1 = 0 \<or> int (batchIndex ?st1) < n)) \<or>
             (batchRows ?st1 = [] \<and> int (batchIndex ?st1) = max 1 n)"
    by (rule scan_batchIndex)
  then show ?thesis unfolding run by auto
qed

section \<open>Claims\<close>

text \<open>
  C1 (resume equivalence). Fix the DocumentItems snapshot, whose \<open>_id\<close>s are pairwise
  distinct as primary keys are, the two reference maps and ItemYearDimensionValues, and
  the date bounds. Let a scan start from some checkpoint (or none), with or without
  \<open>--max-batches\<close>, and take any checkpoint \<open>cp\<close> that it saves, whether one of the
  periodic ones or the final one. A scan that resumes from \<open>cp\<close> and runs to the end of the
  input ends with the same \<open>documentItemCount\<close>, the same count and the same number of
  distinct item ids for every reason, and the same number of ids in \<open>allItemIds\<close> as a
  scan that runs from the first checkpoint to the end of the input without interruption.
\<close>

theorem resume_equivalence:
  assumes "distinct (map di_id (DocumentItems db))"
    and "cp \<in> set (saved (scan_run interrupted db file1 checkpoint))"
    and "startDate interrupted = startDate args"
    and "endDate interrupted = endDate args"
    and "maxBatches args = None"
  shows "documentItemCount (agg (scan_run args db file2 (Some cp))) =
           documentItemCount (agg (scan_run args db file0 checkpoint)) \<and>
         map (\<lambda>(reason, stat). (reason, count stat, length (itemIds stat)))
             (reasonStats (agg (scan_run args db file2 (Some cp)))) =
           map (\<lambda>(reason, stat). (reason, count stat, length (itemIds stat)))
             (reasonStats (agg (scan_run args db file0 checkpoint))) \<and>
         length (allItemIds (agg (scan_run args db file2 (Some cp)))) =
           length (allItemIds (agg (scan_run args db file0 checkpoint)))"
proof -
  have "agg (scan_run args db file2 (Some cp)) = agg (scan_run args db file0 checkpoint)"
    using assms by (rule resume_agg)
  then show ?thesis by simp
qed

theorem resume_equivalence_witness:
  "distinct (map di_id (DocumentItems ex_db)) \<and>
   ex_cp \<in> set (saved (scan_run ex_args ex_db None None)) \<and>
   maxBatches ex_args = None \<and>
   documentItemCount (agg (scan_run ex_args ex_db None (Some ex_cp))) =
     documentItemCount (agg (scan_run ex_args ex_db None None)) \<and>
   map (\<lambda>(reason, stat). (reason, count stat, length (itemIds stat)))
       (reasonStats (agg (scan_run ex_args ex_db None (Some ex_cp)))) =
     map (\<lambda>(reason, stat). (reason, count stat, length (itemIds stat)))
       (reasonStats (agg (scan_run ex_args ex_db None None))) \<and>
   length (allItemIds (agg (scan_run ex_args ex_db None (Some ex_cp)))) =
     length (allItemIds (agg (scan_run ex_args ex_db None None)))"
proof -
  have h1: "distinct (map di_id (DocumentItems ex_db))" by code_simp
  have h2: "ex_cp \<in> set (saved (scan_run ex_args ex_db None None))" by code_simp
  have h3: "maxBatches ex_args = None" by code_simp
  show ?thesis
    using h1 h2 h3 resume_equivalence [OF h1 h2 refl refl h3, of None None] by blast
qed

text \<open>
  C9 (finalize-only without a checkpoint). With \<open>--finalize-only\<close>, when the checkpoint
  file is absent or holds only blank text, the program prints the message that no
  checkpoint was found and returns: the report file and the checkpoint file are as they
  were, so no report, empty or otherwise, is written.
\<close>

theorem finalize_only_without_checkpoint:
  assumes "finalizeOnly args"
    and "checkpoint_file w = None \<or> checkpoint_file w = Some Blank"
  shows "\<exists>w'. main args now db w = Inr w' \<and>
           output_file w' = output_file w \<and>
           checkpoint_file w' = checkpoint_file w \<and>
           console w' = console w @ [MSG_NO_CHECKPOINT]"
  using assms by (auto simp: main_def loadCheckpoint_def)

theorem finalize_only_without_checkpoint_witness:
  "finalizeOnly (ex_args\<lparr>finalizeOnly := True\<rparr>) \<and>
   checkpoint_file ex_world = None \<and>
   (\<exists>w'. main (ex_args\<lparr>finalizeOnly := True\<rparr>) ''2026/1/1'' ex_db ex_world = Inr w' \<and>
      output_file w' = None \<and>
      checkpoint_file w' = None \<and>
      console w' = [MSG_NO_CHECKPOINT])"
  using finalize_only_without_checkpoint
          [of "ex_args\<lparr>finalizeOnly := True\<rparr>" ex_world "''2026/1/1''" ex_db]
  by (simp add: ex_world_def)

text \<open>
  C2 (classification policy). A row is left out of the classification, changing neither
  the counts nor the samples, when its \<open>documentId\<close> resolves to no repository id, or to
  a repository without a body of knowledge, or when the batch resolution of its
  \<open>itemId\<close> is absent or empty. A row that passes these tests and whose resolved bodies
  do not contain the body of its repository is counted as a violation: the global counter
  and the counter of the one reason code go up by one, the item id enters both id sets,
  and no other reason changes.
\<close>

theorem classification_policy:
  "(docRepo (row_documentId row) = None \<or>
    docRepo (row_documentId row) = Some [] \<or>
    (\<exists>repoId. docRepo (row_documentId row) = Some repoId \<and>
       (repoBody repoId = None \<or> repoBody repoId = Some [])) \<or>
    resolved (row_itemId row) = None \<or>
    resolved (row_itemId row) = Some []
    \<longrightarrow> classify_row docRepo repoBody resolved a row = a) \<and>
   (docRepo (row_documentId row) = Some repoId \<and> repoId \<noteq> [] \<and>
    repoBody repoId = Some repoBodyId \<and> repoBodyId \<noteq> [] \<and>
    resolved (row_itemId row) = Some bodies \<and> bodies \<noteq> [] \<and>
    repoBodyId \<notin> set bodies
    \<longrightarrow> (let a' = classify_row docRepo repoBody resolved a row
         in documentItemCount a' = documentItemCount a + 1 \<and>
            map_of (reasonStats a') MISMATCH_REASON =
              Some \<lparr>count = (case map_of (reasonStats a) MISMATCH_REASON of
                               None \<Rightarrow> 0 | Some stat \<Rightarrow> count stat) + 1,
                    itemIds = set_add (row_itemId row)
                                (case map_of (reasonStats a) MISMATCH_REASON of
                                   None \<Rightarrow> [] | Some stat \<Rightarrow> itemIds stat)\<rparr> \<and>
            (\<forall>reason. reason \<noteq> MISMATCH_REASON \<longrightarrow>
               map_of (reasonStats a') reason = map_of (reasonStats a) reason) \<and>
            allItemIds a' = set_add (row_itemId row) (allItemIds a)))"
proof (intro conjI impI)
  assume "docRepo (row_documentId row) = None \<or>
    docRepo (row_documentId row) = Some [] \<or>
    (\<exists>repoId. docRepo (row_documentId row) = Some repoId \<and>
       (repoBody repoId = None \<or> repoBody repoId = Some [])) \<or>
    resolved (row_itemId row) = None \<or>
    resolved (row_itemId row) = Some []"
  then show "classify_row docRepo repoBody resolved a row = a"
    by (auto simp: classify_row_def Let_def str_or_def split: option.splits)
next
  assume "docRepo (row_documentId row) = Some repoId \<and> repoId \<noteq> [] \<and>
    repoBody repoId = Some repoBodyId \<and> repoBodyId \<noteq> [] \<and>
    resolved (row_itemId row) = Some bodies \<and> bodies \<noteq> [] \<and>
    repoBodyId \<notin> set bodies"
  then show "let a' = classify_row docRepo repoBody resolved a row
         in documentItemCount a' = documentItemCount a + 1 \<and>
            map_of (reasonStats a') MISMATCH_REASON =
              Some \<lparr>count = (case map_of (reasonStats a) MISMATCH_REASON of
                               None \<Rightarrow> 0 | Some stat \<Rightarrow> count stat) + 1,
                    itemIds = set_add (row_itemId row)
                                (case map_of (reasonStats a) MISMATCH_REASON of
                                   None \<Rightarrow> [] | Some stat \<Rightarrow> itemIds stat)\<rparr> \<and>
            (\<forall>reason. reason \<noteq> MISMATCH_REASON \<longrightarrow>
               map_of (reasonStats a') reason = map_of (reasonStats a) reason) \<and>
            allItemIds a' = set_add (row_itemId row) (allItemIds a)"
    by (auto simp: classify_row_def Let_def str_or_def update_conv' split: option.splits)
qed

theorem classification_policy_witness:
  "build_itemYearMap (ItemYearDimensionValues ex_db) [''I2'', ''I3''] (row_itemId ex_row3) = None \<and>
   classify_row (load_documentRepoMap (Documents ex_db))
     (load_repoBodyMap (DocumentRepositories ex_db))
     (build_itemYearMap (ItemYearDimensionValues ex_db) [''I2'', ''I3''])
     (restore None) ex_row3 = restore None \<and>
   load_documentRepoMap (Documents ex_db) (row_documentId ex_row2) = Some ''R1'' \<and>
   load_repoBodyMap (DocumentRepositories ex_db) ''R1'' = Some ''bodyA'' \<and>
   build_itemYearMap (ItemYearDimensionValues ex_db) [''I2'', ''I3''] (row_itemId ex_row2) =
     Some [''bodyB''] \<and>
   documentItemCount
     (classify_row (load_documentRepoMap (Documents ex_db))
        (load_repoBodyMap (DocumentRepositories ex_db))
        (build_itemYearMap (ItemYearDimensionValues ex_db) [''I2'', ''I3''])
        (restore None) ex_row2) = 1"
proof -
  let ?dm = "load_documentRepoMap (Documents ex_db)"
  let ?rm = "load_repoBodyMap (DocumentRepositories ex_db)"
  let ?iym = "build_itemYearMap (ItemYearDimensionValues ex_db) [''I2'', ''I3'']"
  have h1: "?iym (row_itemId ex_row3) = None" by code_simp
  have c1: "classify_row ?dm ?rm ?iym (restore None) ex_row3 = restore None"
    using classification_policy [where docRepo = ?dm and repoBody = ?rm and resolved = ?iym
        and row = ex_row3 and a = "restore None", THEN conjunct1] h1
    by blast
  have h2: "?dm (row_documentId ex_row2) = Some ''R1'' \<and> ''R1'' \<noteq> [] \<and>
            ?rm ''R1'' = Some ''bodyA'' \<and> ''bodyA'' \<noteq> [] \<and>
            ?iym (row_itemId ex_row2) = Some [''bodyB''] \<and> [''bodyB''] \<noteq> [] \<and>
            ''bodyA'' \<notin> set [''bodyB'']"
    by code_simp
  have d0: "documentItemCount (restore None) = 0" by code_simp
  have c2: "documentItemCount (classify_row ?dm ?rm ?iym (restore None) ex_row2) = 1"
    using classification_policy [where docRepo = ?dm and repoBody = ?rm and resolved = ?iym
        and row = ex_row2 and a = "restore None" and repoId = "''R1''"
        and repoBodyId = "''bodyA''" and bodies = "[''bodyB'']", THEN conjunct2] h2 d0
    by (simp add: Let_def)
  show ?thesis using h1 c1 h2 c2 by blast
qed

text \<open>
  C6 (sample cap). The cap is 20. Classifying any number of rows leaves a buffer that was
  within the cap within the cap, and the buffer before is always a prefix of the buffer
  after: samples are appended in order of arrival and never dropped or reordered. In every
  run that starts without a checkpoint or from a checkpoint that an earlier scan saved, the
  buffer is within the cap when restored, at the end of the scan and in every checkpoint
  saved on the way.
\<close>

theorem sample_cap:
  "SAMPLE_LIMIT = 20 \<and>
   (length (samples a) \<le> SAMPLE_LIMIT \<longrightarrow>
      length (samples (foldl (classify_row docRepo repoBody resolved) a rows)) \<le> SAMPLE_LIMIT) \<and>
   prefix (samples a) (samples (foldl (classify_row docRepo repoBody resolved) a rows)) \<and>
   (written_by_scan checkpoint \<longrightarrow>
      length (samples (restore checkpoint)) \<le> SAMPLE_LIMIT \<and>
      length (samples (agg (scan_run args db fl checkpoint))) \<le> SAMPLE_LIMIT \<and>
      (\<forall>cp \<in> set (saved (scan_run args db fl checkpoint)).
         length (cp_samples cp) \<le> SAMPLE_LIMIT)) \<and>
   prefix (samples (restore checkpoint)) (samples (agg (scan_run args db fl checkpoint))) \<and>
   (\<forall>cp \<in> set (saved (scan_run args db fl checkpoint)).
      prefix (samples (restore checkpoint)) (cp_samples cp))"
proof -
  let ?run = "scan_run args db fl checkpoint"
  obtain pre where run: "agg ?run =
      foldl (classify (load_refs db)) (restore checkpoint) (map documentItemRow_of pre)"
    using scan_run_result [of args db checkpoint fl] by (elim exE conjE) (rule that)
  have saved_cp: "\<exists>rs. cp_samples cp = samples (foldl (classify (load_refs db)) (restore checkpoint) rs)"
    if "cp \<in> set (saved ?run)" for cp
    using scan_run_saved [OF that] by (elim exE conjE) (simp, blast)
  have a: "length (samples (agg ?run)) \<le> SAMPLE_LIMIT"
    if "length (samples (restore checkpoint)) \<le> SAMPLE_LIMIT"
    unfolding run using that by (rule samples_foldl_classify)
  have b: "length (cp_samples cp) \<le> SAMPLE_LIMIT"
    if "length (samples (restore checkpoint)) \<le> SAMPLE_LIMIT" "cp \<in> set (saved ?run)" for cp
    using saved_cp [OF that(2)] samples_foldl_classify [OF that(1)] by auto
  have c: "prefix (samples (restore checkpoint)) (samples (agg ?run))"
    unfolding run by (rule prefix_samples_foldl_classify)
  have d: "\<forall>cp \<in> set (saved ?run). prefix (samples (restore checkpoint)) (cp_samples cp)"
  proof
    fix cp assume "cp \<in> set (saved ?run)"
    then obtain rs where
      "cp_samples cp = samples (foldl (classify (load_refs db)) (restore checkpoint) rs)"
      using saved_cp by blast
    then show "prefix (samples (restore checkpoint)) (cp_samples cp)"
      using prefix_samples_foldl_classify [of "restore checkpoint" "load_refs db" rs] by simp
  qed
  have e: "SAMPLE_LIMIT = 20" by (simp add: SAMPLE_LIMIT_def)
  have f: "length (samples a) \<le> SAMPLE_LIMIT \<longrightarrow>
      length (samples (foldl (classify_row docRepo repoBody resolved) a rows)) \<le> SAMPLE_LIMIT"
    by (simp add: samples_foldl_classify_row)
  have g: "prefix (samples a) (samples (foldl (classify_row docRepo repoBody resolved) a rows))"
    by (rule prefix_samples_foldl_classify_row)
  have h: "written_by_scan checkpoint \<longrightarrow>
      length (samples (restore checkpoint)) \<le> SAMPLE_LIMIT \<and>
      length (samples (agg ?run)) \<le> SAMPLE_LIMIT \<and>
      (\<forall>cp \<in> set (saved ?run). length (cp_samples cp) \<le> SAMPLE_LIMIT)"
    using written_by_scan_cap [of checkpoint] a b by blast
  show ?thesis by (intro conjI e f g h c d)
qed

theorem sample_cap_witness:
  "written_by_scan None \<and>
   length (samples (restore None)) \<le> SAMPLE_LIMIT \<and>
   length (samples (agg (scan_run ex_args ex_db None None))) \<le> SAMPLE_LIMIT \<and>
   ex_cp \<in> set (saved (scan_run ex_args ex_db None None)) \<and>
   length (cp_samples ex_cp) \<le> SAMPLE_LIMIT \<and>
   prefix (samples (restore None)) (cp_samples ex_cp)"
proof -
  have h1: "written_by_scan None" by (rule written_by_scan.fresh)
  have h2: "ex_cp \<in> set (saved (scan_run ex_args ex_db None None))" by code_simp
  show ?thesis
    using h1 h2 sample_cap [of _ _ _ _ _ None ex_args ex_db None] by blast
qed

text \<open>
  C10 (aggregate consistency). The state is consistent when \<open>documentItemCount\<close> is the
  sum of the counts of the reasons and \<open>allItemIds\<close> is the union of their id sets.
  Classifying any number of rows keeps a consistent state consistent. In every run that
  starts from the empty state, or from a checkpoint saved by a scan that started so, the
  state is consistent when restored and at the end of the scan, every checkpoint saved on
  the way is consistent as written and as restored, and restoring the final checkpoint
  gives back exactly the final aggregates.
\<close>

theorem aggregate_consistency:
  "(consistent a \<longrightarrow> consistent (foldl (classify_row docRepo repoBody resolved) a rows)) \<and>
   (written_by_scan checkpoint \<longrightarrow>
      consistent (restore checkpoint) \<and>
      consistent (agg (scan_run args db fl checkpoint)) \<and>
      (\<forall>cp \<in> set (saved (scan_run args db fl checkpoint)).
         cp_documentItemCount cp =
           sum_list (map (\<lambda>(reason, stat). count stat) (cp_reasonStats cp)) \<and>
         set (cp_allItemIds cp) =
           (\<Union>(reason, stat) \<in> set (cp_reasonStats cp). set (itemIds stat)) \<and>
         consistent (restore (Some cp)))) \<and>
   restore (Some (checkpointData (lastProcessedId (scan_run args db fl checkpoint))
                    (agg (scan_run args db fl checkpoint)))) =
     agg (scan_run args db fl checkpoint)"
proof -
  let ?run = "scan_run args db fl checkpoint"
  let ?refs = "load_refs db"
  obtain pre where run: "agg ?run =
      foldl (classify ?refs) (restore checkpoint) (map documentItemRow_of pre)"
    using scan_run_result [of args db checkpoint fl] by (elim exE conjE) (rule that)
  have n: "normal (foldl (classify ?refs) (restore checkpoint) rs)" for rs
    by (intro normal_foldl_classify normal_restore)
  have fin: "consistent (agg ?run)" if "consistent (restore checkpoint)"
    unfolding run using that by (rule consistent_foldl_classify)
  have roundtrip: "restore (Some (checkpointData (lastProcessedId ?run) (agg ?run))) = agg ?run"
    unfolding run using n by (rule restore_checkpointData)
  have every: "cp_documentItemCount cp =
           sum_list (map (\<lambda>(reason, stat). count stat) (cp_reasonStats cp)) \<and>
         set (cp_allItemIds cp) =
           (\<Union>(reason, stat) \<in> set (cp_reasonStats cp). set (itemIds stat)) \<and>
         consistent (restore (Some cp))"
    if c: "consistent (restore checkpoint)" and cp: "cp \<in> set (saved ?run)" for cp
  proof -
    obtain l rs where cp_eq:
      "cp = checkpointData l (foldl (classify ?refs) (restore checkpoint) rs)"
      using scan_run_saved [OF cp] by (elim exE conjE) (rule that)
    let ?a = "foldl (classify ?refs) (restore checkpoint) rs"
    have ca: "consistent ?a" using c by (rule consistent_foldl_classify)
    have "restore (Some cp) = ?a" unfolding cp_eq using n by (rule restore_checkpointData)
    moreover have "cp_reasonStats cp = reasonStats ?a"
      unfolding cp_eq using n by (rule cp_reasonStats_checkpointData)
    ultimately show ?thesis using ca by (simp add: cp_eq consistent_def)
  qed
  have step: "consistent a \<longrightarrow> consistent (foldl (classify_row docRepo repoBody resolved) a rows)"
    by (simp add: consistent_foldl_classify_row)
  have run_level: "written_by_scan checkpoint \<longrightarrow>
      consistent (restore checkpoint) \<and>
      consistent (agg ?run) \<and>
      (\<forall>cp \<in> set (saved ?run).
         cp_documentItemCount cp =
           sum_list (map (\<lambda>(reason, stat). count stat) (cp_reasonStats cp)) \<and>
         set (cp_allItemIds cp) =
           (\<Union>(reason, stat) \<in> set (cp_reasonStats cp). set (itemIds stat)) \<and>
         consistent (restore (Some cp)))"
  proof (intro impI conjI ballI)
    assume w: "written_by_scan checkpoint"
    show c: "consistent (restore checkpoint)" using w by (rule written_by_scan_consistent)
    show "consistent (agg ?run)" using c by (rule fin)
    fix cp assume cp: "cp \<in> set (saved ?run)"
    note e = every [OF c cp]
    show "cp_documentItemCount cp =
           sum_list (map (\<lambda>(reason, stat). count stat) (cp_reasonStats cp))"
      using e by (rule conjunct1)
    show "set (cp_allItemIds cp) =
           (\<Union>(reason, stat) \<in> set (cp_reasonStats cp). set (itemIds stat))"
      using e by (rule conjunct2 [THEN conjunct1])
    show "consistent (restore (Some cp))"
      using e by (rule conjunct2 [THEN conjunct2])
  qed
  show ?thesis
    by (intro conjI step run_level roundtrip)
qed

theorem aggregate_consistency_witness:
  "written_by_scan None \<and>
   consistent (restore None) \<and>
   consistent (agg (scan_run ex_args ex_db None None)) \<and>
   ex_cp \<in> set (saved (scan_run ex_args ex_db None None)) \<and>
   consistent (restore (Some ex_cp)) \<and>
   documentItemCount (agg (scan_run ex_args ex_db None None)) = 1"
proof -
  have h0: "written_by_scan None" by (rule written_by_scan.fresh)
  have h1: "ex_cp \<in> set (saved (scan_run ex_args ex_db None None))" by code_simp
  have h2: "documentItemCount (agg (scan_run ex_args ex_db None None)) = 1" by code_simp
  show ?thesis
    using h0 h1 h2 aggregate_consistency [of _ _ _ _ _ None ex_args ex_db None] by blast
qed

text \<open>
  C3 (batch flush bound). The threshold is 5000. The calls of \<open>processBatch\<close> in a scan
  are the batches flushed in the loop followed by one drain call after it. Every call gets
  as its id set the distinct item ids of its rows. A flushed batch is not empty and has
  at most, in fact exactly, 5000 distinct item ids, while the same batch without its last
  row has fewer: the row that reaches the threshold is the last row of the batch. The
  drain batch has at most, in fact fewer than, 5000 distinct item ids.
\<close>

theorem batch_flush_bound:
  "BATCH_SIZE = 5000 \<and>
   (\<exists>flushed drain.
      calls (scan_run args db fl checkpoint) = flushed @ [drain] \<and>
      (\<forall>(rows, ids) \<in> set flushed.
         rows \<noteq> [] \<and> ids = new_Set (map row_itemId rows) \<and>
         length ids \<le> BATCH_SIZE \<and> length ids = BATCH_SIZE \<and>
         length (new_Set (map row_itemId (butlast rows))) < BATCH_SIZE) \<and>
      (case drain of (rows, ids) \<Rightarrow>
         ids = new_Set (map row_itemId rows) \<and> length ids \<le> BATCH_SIZE \<and>
         length ids < BATCH_SIZE))"
proof -
  obtain flushed drain where *:
    "calls (scan_run args db fl checkpoint) = flushed @ [drain]"
    "\<forall>call \<in> set flushed. full_batch call"
    "snd drain = new_Set (map row_itemId (fst drain))"
    "length (snd drain) < BATCH_SIZE"
    using scan_run_calls [of args db fl checkpoint] by (elim exE conjE) (rule that)
  have "\<forall>(rows, ids) \<in> set flushed.
         rows \<noteq> [] \<and> ids = new_Set (map row_itemId rows) \<and>
         length ids \<le> BATCH_SIZE \<and> length ids = BATCH_SIZE \<and>
         length (new_Set (map row_itemId (butlast rows))) < BATCH_SIZE"
    using *(2) by (auto simp: full_batch_def)
  moreover have "case drain of (rows, ids) \<Rightarrow>
         ids = new_Set (map row_itemId rows) \<and> length ids \<le> BATCH_SIZE \<and>
         length ids < BATCH_SIZE"
    using *(3,4) by (cases drain) simp
  ultimately show ?thesis using *(1) by (simp add: BATCH_SIZE_def) 
qed

theorem batch_flush_bound_witness:
  "calls (scan_run ex_args ex_db None None) =
     [(map documentItemRow_of (sort_key di_id (DocumentItems ex_db)), [''I1'', ''I2'', ''I3''])] \<and>
   length (snd (last (calls (scan_run ex_args ex_db None None)))) \<le> BATCH_SIZE"
proof -
  have h: "calls (scan_run ex_args ex_db None None) =
     [(map documentItemRow_of (sort_key di_id (DocumentItems ex_db)), [''I1'', ''I2'', ''I3''])]"
    by code_simp
  obtain flushed drain where d: "calls (scan_run ex_args ex_db None None) = flushed @ [drain]"
    "case drain of (rows, ids) \<Rightarrow>
       ids = new_Set (map row_itemId rows) \<and> length ids \<le> BATCH_SIZE \<and>
       length ids < BATCH_SIZE"
    using batch_flush_bound [of ex_args ex_db None None] by (elim conjE exE) (rule that)
  have "length (snd drain) \<le> BATCH_SIZE" using d(2) by (cases drain) simp
  moreover have "last (calls (scan_run ex_args ex_db None None)) = drain"
    unfolding d(1) by simp
  ultimately have "length (snd (last (calls (scan_run ex_args ex_db None None)))) \<le> BATCH_SIZE"
    by simp
  then show ?thesis using h by blast
qed

text \<open>
  C8 (cooperative cancellation). One turn of the loop takes in a row and then does one of
  three things. While the buffer has fewer than \<open>BATCH_SIZE\<close> distinct item ids the loop
  goes on to the next row, whatever \<open>--max-batches\<close> says: there is no stop test inside a
  batch. When the row fills the buffer, the batch is flushed, and then the stop test is
  made: with \<open>--max-batches N\<close> given and at least \<open>N\<close> batches processed, the loop ends
  there and then with the flushed state, otherwise it goes on from the flushed state. The
  flushed state has an empty buffer and the aggregates of every row that was in it.
  So with \<open>--max-batches N\<close> a scan never processes more than \<open>max 1 N\<close> batches, and a
  scan that leaves rows unread was given the flag, has processed exactly \<open>max 1 N\<close>
  batches and stopped with an empty buffer (the drain call has no rows). In every case
  the rows read are exactly the rows handed to \<open>processBatch\<close>, in order, the aggregates
  are those of classifying every row read, and the last thing the scan does is to save a
  checkpoint with these aggregates and the key of the last row read, which is what the
  checkpoint file holds when the program returns.
\<close>

theorem cooperative_cancellation:
  "(length (batchItemIds (absorb row st)) < BATCH_SIZE \<longrightarrow>
      scan refs maxB st (row # cursor) = scan refs maxB (absorb row st) cursor) \<and>
   (BATCH_SIZE \<le> length (batchItemIds (absorb row st)) \<and> maxB = Some n \<and>
    n \<le> int (batchIndex (flush refs (absorb row st))) \<longrightarrow>
      scan refs maxB st (row # cursor) = flush refs (absorb row st)) \<and>
   (BATCH_SIZE \<le> length (batchItemIds (absorb row st)) \<and>
    (maxB = None \<or> (maxB = Some n \<and> int (batchIndex (flush refs (absorb row st))) < n)) \<longrightarrow>
      scan refs maxB st (row # cursor) = scan refs maxB (flush refs (absorb row st)) cursor) \<and>
   batchRows (flush refs st) = [] \<and>
   (buffered st \<longrightarrow> agg (flush refs st) = pending refs st) \<and>
   (maxBatches args = Some n \<longrightarrow>
      int (batchIndex (scan_run args db fl checkpoint)) \<le> max 1 n) \<and>
   (\<exists>pre suf.
     documentItemCursor args db (lastDocumentItemId_of checkpoint) = pre @ suf \<and>
     scannedDocumentItems (scan_run args db fl checkpoint) = length pre \<and>
     (suf \<noteq> [] \<longrightarrow>
        (\<exists>n. maxBatches args = Some n \<and>
             int (batchIndex (scan_run args db fl checkpoint)) = max 1 n) \<and>
        last (calls (scan_run args db fl checkpoint)) = ([], [])) \<and>
     concat (map fst (calls (scan_run args db fl checkpoint))) = map documentItemRow_of pre \<and>
     agg (scan_run args db fl checkpoint) =
       foldl (classify (load_refs db)) (restore checkpoint) (map documentItemRow_of pre) \<and>
     lastProcessedId (scan_run args db fl checkpoint) =
       (if pre = [] then lastDocumentItemId_of checkpoint
        else Some (row_documentItemId (documentItemRow_of (last pre))))) \<and>
   saved (scan_run args db fl checkpoint) \<noteq> [] \<and>
   last (saved (scan_run args db fl checkpoint)) =
     checkpointData (lastProcessedId (scan_run args db fl checkpoint))
       (agg (scan_run args db fl checkpoint)) \<and>
   checkpointFile (scan_run args db fl checkpoint) =
     Some (Json (last (saved (scan_run args db fl checkpoint)))) \<and>
   (\<not> finalizeOnly args \<and> loadCheckpoint (checkpoint_file w) = Inr checkpoint \<longrightarrow>
      (\<exists>w'. main args now db w = Inr w' \<and>
         checkpoint_file w' =
           Some (Json (last (saved (scan_run args db (checkpoint_file w) checkpoint))))))"
proof -
  let ?run = "scan_run args db fl checkpoint"
  obtain pre suf where *:
    "documentItemCursor args db (lastDocumentItemId_of checkpoint) = pre @ suf"
    "scannedDocumentItems ?run = length pre"
    "suf \<noteq> [] \<longrightarrow> stop_requested (maxBatches args) ?run \<and> last (calls ?run) = ([], [])"
    "concat (map fst (calls ?run)) = map documentItemRow_of pre"
    "agg ?run = foldl (classify (load_refs db)) (restore checkpoint) (map documentItemRow_of pre)"
    "lastProcessedId ?run =
       (if pre = [] then lastDocumentItemId_of checkpoint
        else Some (row_documentItemId (documentItemRow_of (last pre))))"
    "saved ?run \<noteq> []"
    "last (saved ?run) = checkpointData (lastProcessedId ?run) (agg ?run)"
    "checkpointFile ?run = Some (Json (last (saved ?run)))"
    using scan_run_trace [of args db checkpoint fl] by (elim exE conjE) (rule that)
  have s1: "length (batchItemIds (absorb row st)) < BATCH_SIZE \<longrightarrow>
      scan refs maxB st (row # cursor) = scan refs maxB (absorb row st) cursor"
    by (simp add: scan_step_mid_batch)
  have s2: "BATCH_SIZE \<le> length (batchItemIds (absorb row st)) \<and> maxB = Some n \<and>
    n \<le> int (batchIndex (flush refs (absorb row st))) \<longrightarrow>
      scan refs maxB st (row # cursor) = flush refs (absorb row st)"
    using scan_step_stop by blast
  have s3: "BATCH_SIZE \<le> length (batchItemIds (absorb row st)) \<and>
    (maxB = None \<or> (maxB = Some n \<and> int (batchIndex (flush refs (absorb row st))) < n)) \<longrightarrow>
      scan refs maxB st (row # cursor) = scan refs maxB (flush refs (absorb row st)) cursor"
    using scan_step_continue by blast
  have s4: "batchRows (flush refs st) = []" by simp
  have s5: "buffered st \<longrightarrow> agg (flush refs st) = pending refs st"
    by (simp add: agg_flush)
  have bound: "maxBatches args = Some n \<longrightarrow> int (batchIndex ?run) \<le> max 1 n"
    using scan_run_batchIndex by blast
  have stop: "suf \<noteq> [] \<longrightarrow>
        (\<exists>n. maxBatches args = Some n \<and> int (batchIndex ?run) = max 1 n) \<and>
        last (calls ?run) = ([], [])"
  proof
    assume s: "suf \<noteq> []"
    then have r: "stop_requested (maxBatches args) ?run" and l: "last (calls ?run) = ([], [])"
      using *(3) by simp_all
    then obtain m where m: "maxBatches args = Some m"
      by (cases "maxBatches args") (simp_all add: stop_requested_def)
    have "scannedDocumentItems ?run <
            length (documentItemCursor args db (lastDocumentItemId_of checkpoint))"
      using s *(1,2) by simp
    then have "int (batchIndex ?run) = max 1 m"
      using scan_run_batchIndex [OF m, of db fl checkpoint] by blast
    then show "(\<exists>n. maxBatches args = Some n \<and> int (batchIndex ?run) = max 1 n) \<and>
        last (calls ?run) = ([], [])"
      using m l by blast
  qed
  have first: "\<exists>pre suf.
     documentItemCursor args db (lastDocumentItemId_of checkpoint) = pre @ suf \<and>
     scannedDocumentItems ?run = length pre \<and>
     (suf \<noteq> [] \<longrightarrow>
        (\<exists>n. maxBatches args = Some n \<and> int (batchIndex ?run) = max 1 n) \<and>
        last (calls ?run) = ([], [])) \<and>
     concat (map fst (calls ?run)) = map documentItemRow_of pre \<and>
     agg ?run =
       foldl (classify (load_refs db)) (restore checkpoint) (map documentItemRow_of pre) \<and>
     lastProcessedId ?run =
       (if pre = [] then lastDocumentItemId_of checkpoint
        else Some (row_documentItemId (documentItemRow_of (last pre))))"
    by (rule exI [of _ pre], rule exI [of _ suf]) (intro conjI *(1,2,4,5,6) stop)
  have m: "\<not> finalizeOnly args \<and> loadCheckpoint (checkpoint_file w) = Inr checkpoint \<longrightarrow>
      (\<exists>w'. main args now db w = Inr w' \<and>
         checkpoint_file w' =
           Some (Json (last (saved (scan_run args db (checkpoint_file w) checkpoint)))))"
  proof
    assume a: "\<not> finalizeOnly args \<and> loadCheckpoint (checkpoint_file w) = Inr checkpoint"
    have "checkpointFile (scan_run args db (checkpoint_file w) checkpoint) =
        Some (Json (last (saved (scan_run args db (checkpoint_file w) checkpoint))))"
      using scan_run_trace [of args db checkpoint "checkpoint_file w"]
      by (elim exE conjE)
    then show "\<exists>w'. main args now db w = Inr w' \<and>
         checkpoint_file w' =
           Some (Json (last (saved (scan_run args db (checkpoint_file w) checkpoint))))"
      using a by (simp add: main_def Let_def)
  qed
  show ?thesis by (intro conjI s1 s2 s3 s4 s5 bound first *(7,8,9) m)
qed

theorem cooperative_cancellation_witness:
  "maxBatches ex_max0 = Some 0 \<and>
   \<not> finalizeOnly ex_max0 \<and>
   loadCheckpoint (checkpoint_file ex_world) = Inr None \<and>
   int (batchIndex (scan_run ex_max0 ex_db None None)) \<le> max 1 0 \<and>
   batchIndex (scan_run ex_max0 ex_db None None) = 1 \<and>
   last (saved (scan_run ex_max0 ex_db None None)) = ex_cp \<and>
   (\<exists>w'. main ex_max0 ''2026/1/1'' ex_db ex_world = Inr w' \<and>
      checkpoint_file w' = Some (Json ex_cp)) \<and>
   length (batchItemIds (absorb ex_doc2 (initial_scan None None))) < BATCH_SIZE \<and>
   scan (load_refs ex_db) (Some 0) (initial_scan None None) [ex_doc2, ex_doc3] =
     scan (load_refs ex_db) (Some 0) (absorb ex_doc2 (initial_scan None None)) [ex_doc3] \<and>
   BATCH_SIZE \<le> length (batchItemIds (absorb ex_doc2 ex_full)) \<and>
   scan (load_refs ex_db) (Some 0) ex_full [ex_doc2, ex_doc3] =
     flush (load_refs ex_db) (absorb ex_doc2 ex_full)"
proof -
  have h0: "maxBatches ex_max0 = Some 0" by code_simp
  have h1: "\<not> finalizeOnly ex_max0" by code_simp
  have h2: "loadCheckpoint (checkpoint_file ex_world) = Inr None" by code_simp
  have h3: "checkpoint_file ex_world = None" by code_simp
  have h4: "last (saved (scan_run ex_max0 ex_db None None)) = ex_cp" by code_simp
  have h5: "batchIndex (scan_run ex_max0 ex_db None None) = 1" by code_simp
  have h6: "length (batchItemIds (absorb ex_doc2 (initial_scan None None))) < BATCH_SIZE"
    by code_simp
  have h7: "BATCH_SIZE \<le> length (batchItemIds (absorb ex_doc2 ex_full))"
    by (simp add: ex_full_def absorb_def Let_def set_add_def documentItemRow_of_def
          ex_doc2_def str_or_def BATCH_SIZE_def image_iff)
  have h8: "BATCH_SIZE \<le> length (batchItemIds (absorb ex_doc2 ex_full)) \<and> Some 0 = Some (0::int) \<and>
            (0::int) \<le> int (batchIndex (flush (load_refs ex_db) (absorb ex_doc2 ex_full)))"
    using h7 by simp
  note run = cooperative_cancellation [of _ _ _ _ _ 0 ex_max0 ex_db None None ex_world "''2026/1/1''"]
  have c1: "int (batchIndex (scan_run ex_max0 ex_db None None)) \<le> max 1 0"
    using run h0 by blast
  have c2: "\<exists>w'. main ex_max0 ''2026/1/1'' ex_db ex_world = Inr w' \<and>
         checkpoint_file w' =
           Some (Json (last (saved (scan_run ex_max0 ex_db (checkpoint_file ex_world) None))))"
    using run h1 h2 by blast
  have c3: "scan (load_refs ex_db) (Some 0) (initial_scan None None) [ex_doc2, ex_doc3] =
     scan (load_refs ex_db) (Some 0) (absorb ex_doc2 (initial_scan None None)) [ex_doc3]"
    using cooperative_cancellation
            [of ex_doc2 "initial_scan None None" "load_refs ex_db" "Some 0" "[ex_doc3]",
             THEN conjunct1] h6
    by (rule mp)
  have c4: "scan (load_refs ex_db) (Some 0) ex_full [ex_doc2, ex_doc3] =
     flush (load_refs ex_db) (absorb ex_doc2 ex_full)"
    using cooperative_cancellation
            [of ex_doc2 ex_full "load_refs ex_db" "Some 0" "[ex_doc3]" 0,
             THEN conjunct2, THEN conjunct1] h8
    by (rule mp)
  show ?thesis
    using h0 h1 h2 h4 h5 h6 h7 c1 c2 c3 c4 unfolding h3 by simp
qed

text \<open>
  C7 (resumable cursor scan). In every run that starts without a checkpoint or from a
  checkpoint that an earlier scan saved, the cursor is the collection filtered to the rows
  in range (key strictly greater than the checkpointed key if there is one, timestamp at
  least the lower bound and below the upper bound where given) and sorted ascending by
  key, strictly so when the keys are distinct.
\<close>

theorem resumable_cursor_scan:
  assumes "written_by_scan checkpoint"
  shows "documentItemCursor args db (lastDocumentItemId_of checkpoint) =
           sort_key di_id
             (filter (in_range (lastDocumentItemId_of checkpoint) (startDate args) (endDate args))
                (DocumentItems db)) \<and>
         set (documentItemCursor args db (lastDocumentItemId_of checkpoint)) =
           {d \<in> set (DocumentItems db).
              in_range (lastDocumentItemId_of checkpoint) (startDate args) (endDate args) d} \<and>
         sorted (map di_id (documentItemCursor args db (lastDocumentItemId_of checkpoint))) \<and>
         (distinct (map di_id (DocumentItems db)) \<longrightarrow>
            sorted_wrt (<)
              (map di_id (documentItemCursor args db (lastDocumentItemId_of checkpoint))))"
proof -
  let ?l = "lastDocumentItemId_of checkpoint"
  let ?P = "in_range ?l (startDate args) (endDate args)"
  have key: "?l \<noteq> Some []" using assms by (rule written_by_scan_key)
  have m: "matches (documentItemQuery ?l (startDate args) (endDate args)) = ?P"
    using in_range_matches [OF key] by (intro ext)
  have eq: "documentItemCursor args db ?l = sort_key di_id (filter ?P (DocumentItems db))"
    by (simp add: documentItemCursor_def find_documentItems_def m)
  have s: "sorted (map di_id (sort_key di_id (filter ?P (DocumentItems db))))"
    by (rule sorted_sort_key)
  have d: "distinct (map di_id (sort_key di_id (filter ?P (DocumentItems db))))"
    if "distinct (map di_id (DocumentItems db))"
    using that by (intro distinct_map_sort_key) (simp add: distinct_map_filter)
  have strict: "distinct (map di_id (DocumentItems db)) \<longrightarrow>
      sorted_wrt (<) (map di_id (documentItemCursor args db ?l))"
    unfolding eq using s d by (simp add: strict_sorted_iff)
  have set_eq: "set (documentItemCursor args db ?l) = {d \<in> set (DocumentItems db). ?P d}"
    unfolding eq by simp
  have srt: "sorted (map di_id (documentItemCursor args db ?l))" unfolding eq by (rule s)
  show ?thesis by (intro conjI eq set_eq srt strict)
qed

theorem resumable_cursor_scan_witness:
  "written_by_scan (Some ex_cp1) \<and>
   lastDocumentItemId_of (Some ex_cp1) = Some ''D1'' \<and>
   map di_id
     (documentItemCursor (ex_args\<lparr>startDate := Some 3, endDate := Some 6\<rparr>) ex_db
        (lastDocumentItemId_of (Some ex_cp1))) = [''D2''] \<and>
   sorted (map di_id
     (documentItemCursor (ex_args\<lparr>startDate := Some 3, endDate := Some 6\<rparr>) ex_db
        (lastDocumentItemId_of (Some ex_cp1))))"
proof -
  have m: "ex_cp1 \<in> set (saved (scan_run (ex_args\<lparr>endDate := Some 4\<rparr>) ex_db None None))"
    by code_simp
  have h: "written_by_scan (Some ex_cp1)"
    using written_by_scan.fresh m by (rule written_by_scan.resumed)
  have k: "lastDocumentItemId_of (Some ex_cp1) = Some ''D1''" by code_simp
  have v: "map di_id
     (documentItemCursor (ex_args\<lparr>startDate := Some 3, endDate := Some 6\<rparr>) ex_db
        (lastDocumentItemId_of (Some ex_cp1))) = [''D2'']"
    by code_simp
  show ?thesis
    using h k v resumable_cursor_scan [OF h, of "ex_args\<lparr>startDate := Some 3, endDate := Some 6\<rparr>" ex_db]
    by blast
qed

text \<open>
  C5 (finalize-only purity). The claim as stated fails: the third line of the report is
  the query time, read from the clock at each invocation, so two invocations one second
  apart against the same checkpoint write different reports.
\<close>

theorem finalize_only_purity_counterexample:
  "main ex_finalize ''2026/11/3 09:00:00'' ex_db ex_world_cp =
     Inr (ex_world_cp\<lparr>output_file :=
            Some (join ''\<newline>'' (finalize_lines ''2026/11/3 09:00:00'' (restore (Some ex_cp))))\<rparr>) \<and>
   main ex_finalize ''2026/11/3 09:00:01'' ex_db
     (ex_world_cp\<lparr>output_file :=
        Some (join ''\<newline>'' (finalize_lines ''2026/11/3 09:00:00'' (restore (Some ex_cp))))\<rparr>) =
     Inr (ex_world_cp\<lparr>output_file :=
            Some (join ''\<newline>'' (finalize_lines ''2026/11/3 09:00:01'' (restore (Some ex_cp))))\<rparr>) \<and>
   join ''\<newline>'' (finalize_lines ''2026/11/3 09:00:00'' (restore (Some ex_cp))) \<noteq>
   join ''\<newline>'' (finalize_lines ''2026/11/3 09:00:01'' (restore (Some ex_cp)))"
  by code_simp

text \<open>
  C5 as amended. Two invocations with \<open>--finalize-only\<close> against the same checkpoint file
  leave that file as it is and write reports that agree line for line except for the third
  line, which carries the query time of each invocation; the reports are identical when
  both invocations render the same query time.
\<close>

theorem finalize_only_purity:
  assumes "finalizeOnly args" and "finalizeOnly args'"
    and "checkpoint_file w = Some (Json cp)"
  shows "main args now db w =
           Inr (w\<lparr>output_file :=
                  Some (join ''\<newline>'' (finalize_lines now (restore (Some cp))))\<rparr>) \<and>
         main args' now' db'
           (w\<lparr>output_file := Some (join ''\<newline>'' (finalize_lines now (restore (Some cp))))\<rparr>) =
           Inr (w\<lparr>output_file :=
                  Some (join ''\<newline>'' (finalize_lines now' (restore (Some cp))))\<rparr>) \<and>
         finalize_lines now' (restore (Some cp)) =
           (finalize_lines now (restore (Some cp)))[2 := HDR_QUERY_TIME @ now'] \<and>
         finalize_lines now (restore (Some cp)) ! 2 = HDR_QUERY_TIME @ now \<and>
         (now' = now \<longrightarrow>
            join ''\<newline>'' (finalize_lines now' (restore (Some cp))) =
            join ''\<newline>'' (finalize_lines now (restore (Some cp))))"
  using assms finalize_lines_time(1) [of now' "restore (Some cp)" now]
    finalize_lines_time(2) [of now "restore (Some cp)"]
  by (simp add: main_def loadCheckpoint_def)

theorem finalize_only_purity_witness:
  "finalizeOnly ex_finalize \<and> checkpoint_file ex_world_cp = Some (Json ex_cp) \<and>
   finalize_lines ''2026/11/3 09:00:01'' (restore (Some ex_cp)) =
     (finalize_lines ''2026/11/3 09:00:00'' (restore (Some ex_cp)))
       [2 := HDR_QUERY_TIME @ ''2026/11/3 09:00:01'']"
proof -
  have h1: "finalizeOnly ex_finalize" by code_simp
  have h2: "checkpoint_file ex_world_cp = Some (Json ex_cp)" by code_simp
  show ?thesis
    using h1 h2 finalize_only_purity [OF h1 h1 h2, of "''2026/11/3 09:00:00''" ex_db
        "''2026/11/3 09:00:01''" ex_db]
    by blast
qed

text \<open>
  C4 (checkpoint save atomicity). The claim as stated fails: \<open>saveCheckpoint\<close> makes one
  call, \<open>fs.writeFileSync\<close> on the checkpoint path itself, so the file is overwritten in
  place and not by write-then-replace.
\<close>

theorem checkpoint_save_atomicity_counterexample:
  "saveCheckpoint checkpointPath ex_cp = [WriteFileSync checkpointPath (Json ex_cp)] \<and>
   \<not> write_then_replace checkpointPath (saveCheckpoint checkpointPath ex_cp)"
  by (simp add: saveCheckpoint_def write_then_replace_def)

text \<open>
  C4 as amended. Every invocation of \<open>saveCheckpoint\<close> makes exactly one call,
  \<open>fs.writeFileSync\<close> on the given path with the full serialized state. Once the call
  has returned, \<open>loadCheckpoint\<close> reads back exactly the checkpoint saved, whatever the
  file held before; in particular the checkpoint file that a scan leaves behind loads as
  the last checkpoint the scan saved.
\<close>

theorem checkpoint_save_in_place:
  "saveCheckpoint filePath checkpoint = [WriteFileSync filePath (Json checkpoint)] \<and>
   loadCheckpoint (foldl (written filePath) file_before (saveCheckpoint filePath checkpoint)) =
     Inr (Some checkpoint) \<and>
   loadCheckpoint (checkpointFile (scan_run args db fl c)) =
     Inr (Some (last (saved (scan_run args db fl c))))"
proof -
  have "checkpointFile (scan_run args db fl c) =
      Some (Json (last (saved (scan_run args db fl c))))"
    using scan_run_trace [of args db c fl] by (elim exE conjE)
  then show ?thesis by (simp add: saveCheckpoint_def loadCheckpoint_def)
qed

end
